theory Spec2Isabelle
  imports Complex_Main "HOL-Library.Signed_Division"
begin

section \<open>Machine integers\<close>

text \<open>
  \<^verbatim>\<open>size_t\<close> is a 64-bit unsigned integer: it is modelled as a natural number below
  \<open>2 ^ 64\<close>, with the wrap-around of subtraction and addition written out. \<^verbatim>\<open>int\<close> is a
  32-bit two's complement integer; the cast \<^verbatim>\<open>(int)(i)\<close> keeps the low 32 bits. The
  operator \<^verbatim>\<open>%\<close> on \<^verbatim>\<open>int\<close> truncates towards zero (\<open>smod\<close>). \<^verbatim>\<open>double\<close> is idealised
  as \<open>real\<close>.
\<close>

definition size_t_sub :: "nat \<Rightarrow> nat \<Rightarrow> nat" where
  "size_t_sub a b = (a mod 2 ^ 64 + 2 ^ 64 - b mod 2 ^ 64) mod 2 ^ 64"

definition size_t_add :: "nat \<Rightarrow> nat \<Rightarrow> nat" where
  "size_t_add a b = (a + b) mod 2 ^ 64"

definition to_int :: "nat \<Rightarrow> int" where
  "to_int n = (let r = n mod 2 ^ 32 in if r < 2 ^ 31 then int r else int r - 2 ^ 32)"

section \<open>Port angles of the octilinear Hanan grid\<close>

text \<open>
  \<^verbatim>\<open>OctiHananGraph::ang\<close>. \<open>ang_deg\<close> is the local \<^verbatim>\<open>deg\<close>, computed on \<^verbatim>\<open>int\<close>;
  \<open>ang_ang\<close> is the local \<^verbatim>\<open>ang\<close>, whose first value \<^verbatim>\<open>(8 + (i - j)) % 8\<close> is computed on
  \<^verbatim>\<open>size_t\<close> and then stored in an \<^verbatim>\<open>int\<close>.
\<close>

definition ang_deg :: "nat \<Rightarrow> nat \<Rightarrow> int" where
  "ang_deg i j =
     (let d = to_int i - to_int j
      in \<bar>(((d + 4) smod 8) + 8) smod 8 - 4\<bar> smod 4)"

definition ang_ang :: "nat \<Rightarrow> nat \<Rightarrow> int" where
  "ang_ang i j =
     (let a0 = to_int (size_t_add 8 (size_t_sub i j) mod 8);
          a1 = (if a0 > 4 then 8 - a0 else a0)
      in a1 smod 4)"

text \<open>A failing \<^verbatim>\<open>assert(deg == ang)\<close> is the result \<open>None\<close>.\<close>

definition ang :: "nat \<Rightarrow> nat \<Rightarrow> nat option" where
  "ang i j = (if ang_deg i j = ang_ang i j then Some (nat (ang_ang i j)) else None)"

text \<open>The two computations on ports \<open>0..7\<close>, with the casts and the wrap-around resolved.\<close>

definition angS :: "nat \<Rightarrow> nat \<Rightarrow> int" where
  "angS i j = (let a0 = int ((8 + i - j) mod 8) in (if a0 > 4 then 8 - a0 else a0) mod 4)"

definition degS :: "nat \<Rightarrow> nat \<Rightarrow> int" where
  "degS i j = \<bar>(int i - int j + 4) mod 8 - 4\<bar> mod 4"


section \<open>Names\<close>

text \<open>
  Stream output of a \<^verbatim>\<open>size_t\<close> is its decimal numeral; stream output of a pointer is
  \<^verbatim>\<open>0x\<close> followed by the hexadecimal numeral of the address.
\<close>

fun showDec :: "nat \<Rightarrow> string" where
  "showDec n = (if n < 10 then [''0123456789'' ! n]
                else showDec (n div 10) @ [''0123456789'' ! (n mod 10)])"

fun showHex :: "nat \<Rightarrow> string" where
  "showHex n = (if n < 16 then [''0123456789abcdef'' ! n]
                else showHex (n div 16) @ [''0123456789abcdef'' ! (n mod 16)])"

declare showDec.simps [simp del] showHex.simps [simp del]

definition showPtr :: "nat \<Rightarrow> string" where
  "showPtr p = ''0x'' @ showHex p"

section \<open>Input graph\<close>

text \<open>
  Objects live in a store and are referred to by their address. A \<^verbatim>\<open>CombNode*\<close> or
  \<^verbatim>\<open>CombEdge*\<close> is a natural number; \<open>cgNode\<close> and \<open>cgEdge\<close> read the object at an
  address. \<open>cgNds\<close> lists the node pointers in the iteration order of \<^verbatim>\<open>getNds()\<close>.
  \<open>ceLines\<close> holds the lines of \<^verbatim>\<open>getChilds().front()\<close>; \<open>cnOrder\<close> holds the edges
  (the first components) of \<^verbatim>\<open>getEdgeOrdering().getOrderedSet()\<close>.
\<close>

type_synonym point = "real \<times> real"

record CombEdge =
  ceFrom :: nat
  ceTo :: nat
  ceLines :: "nat list"

record CombNode =
  cnAdjList :: "nat list"
  cnOrder :: "nat list"
  cnGeom :: point

record CombGraph =
  cgNds :: "nat list"
  cgNode :: "nat \<Rightarrow> CombNode"
  cgEdge :: "nat \<Rightarrow> CombEdge"

text \<open>The degree of a node of the undirected input graph is the length of its adjacency list.\<close>

definition combDeg :: "CombGraph \<Rightarrow> nat \<Rightarrow> nat" where
  "combDeg cg nd = length (cnAdjList (cgNode cg nd))"

text \<open>
  The recurring double loop \<^verbatim>\<open>for (nd : cg.getNds()) for (edg : nd->getAdjList())
  { if (edg->getFrom() != nd) continue; ... }\<close> visits these comb edges, in this order.
\<close>

definition fromEdges :: "CombGraph \<Rightarrow> nat list" where
  "fromEdges cg =
     concat (map (\<lambda>nd. filter (\<lambda>edg. ceFrom (cgEdge cg edg) = nd) (cnAdjList (cgNode cg nd)))
       (cgNds cg))"

section \<open>Base grid graph\<close>

text \<open>
  A \<^verbatim>\<open>GridNode*\<close> is a natural number; a \<^verbatim>\<open>GridEdge*\<close> is the pair of its end node
  pointers (the graph has at most one edge per ordered pair, \<^verbatim>\<open>getEdg(a, b)\<close> finds it).
  The payload of an edge is read from \<open>ggEdgePL\<close>. The three adjacency lists of a node are
  kept as the three results of \<^verbatim>\<open>getAdjList()\<close>, \<^verbatim>\<open>getAdjListIn()\<close>, \<^verbatim>\<open>getAdjListOut()\<close>.
\<close>

type_synonym gedge = "nat \<times> nat"

record GridEdgePL =
  epCost :: real
  epSecondary :: bool
  epSink :: bool
  epClosed :: bool
  epBlocked :: bool
  epId :: nat

record GridNode =
  gnId :: nat
  gnSink :: bool
  gnParent :: nat
  gnPorts :: "nat \<Rightarrow> nat option"
  gnXY :: "nat \<times> nat"
  gnGeom :: point
  gnAdjList :: "gedge list"
  gnAdjListIn :: "gedge list"
  gnAdjListOut :: "gedge list"

record Penalties =
  verticalPen :: real
  horizontalPen :: real
  diagonalPen :: real

text \<open>
  The state of an \<^verbatim>\<open>OctiHananGraph\<close> behind the \<^verbatim>\<open>BaseGraph\<close> interface. The sentinels
  \<^verbatim>\<open>INF\<close> and \<^verbatim>\<open>SOFT_INF\<close>, the result of \<^verbatim>\<open>getCosts()\<close> and the result of
  \<^verbatim>\<open>getCrossEdgPairs()\<close> are declared or computed outside the files at hand and are
  fields here. \<open>hgBendCosts\<close> is the array \<^verbatim>\<open>_bendCosts\<close>, read at the indices \<open>0..3\<close>.
\<close>

record BaseGraph =
  ggNds :: "nat list"
  ggNode :: "nat \<Rightarrow> GridNode"
  ggEdgePL :: "gedge \<Rightarrow> GridEdgePL"
  ggAlloc :: nat
  ggCellSize :: real
  ggInf :: real
  ggSoftInf :: real
  ggCosts :: "real list"
  ggCrossEdgPairs :: "((gedge \<times> gedge) \<times> (gedge \<times> gedge)) list"
  hgNds :: "nat list"
  hgNdIdx :: "nat \<Rightarrow> nat"
  hgEdgeCount :: nat
  hgGrid :: "(nat \<times> nat \<times> nat) list"
  hgXWidth :: nat
  hgYHeight :: nat
  hgLowerLeft :: point
  hgSpacer :: real
  hgBendCosts :: "nat \<Rightarrow> real"
  hgC :: Penalties

text \<open>\<^verbatim>\<open>OctiHananGraph::maxDeg\<close>.\<close>

definition maxDeg :: nat where
  "maxDeg = 8"

text \<open>The degree of a grid node is the length of its adjacency list.\<close>

definition gridDeg :: "BaseGraph \<Rightarrow> nat \<Rightarrow> nat" where
  "gridDeg gg n = length (gnAdjList (ggNode gg n))"

definition getPort :: "BaseGraph \<Rightarrow> nat \<Rightarrow> nat \<Rightarrow> nat option" where
  "getPort gg n p = gnPorts (ggNode gg n) p"

text \<open>
  Modelled from the spec: \<^verbatim>\<open>GridEdgePL::cost\<close> and the flag setters are not among the
  files at hand. A closed or blocked edge costs \<^verbatim>\<open>SOFT_INF\<close>, any other edge its stored
  cost.
\<close>

definition cost :: "BaseGraph \<Rightarrow> gedge \<Rightarrow> real" where
  "cost gg e = (let pl = ggEdgePL gg e
                in if epClosed pl \<or> epBlocked pl then ggSoftInf gg else epCost pl)"

definition updEdge :: "(GridEdgePL \<Rightarrow> GridEdgePL) \<Rightarrow> gedge \<Rightarrow> BaseGraph \<Rightarrow> BaseGraph" where
  "updEdge f e gg = gg\<lparr>ggEdgePL := (ggEdgePL gg)(e := f (ggEdgePL gg e))\<rparr>"




definition setCost :: "real \<Rightarrow> gedge \<Rightarrow> BaseGraph \<Rightarrow> BaseGraph" where
  "setCost c = updEdge (\<lambda>pl. pl\<lparr>epCost := c\<rparr>)"

text \<open>The ports of a node that exist, in the order of \<^verbatim>\<open>for (p = 0; p < maxDeg(); p++)\<close>.\<close>

definition portsOf :: "BaseGraph \<Rightarrow> nat \<Rightarrow> nat list" where
  "portsOf gg n = List.map_filter (getPort gg n) [0..<maxDeg]"

text \<open>
  Modelled from the spec: \<^verbatim>\<open>openSinkFr\<close>, \<^verbatim>\<open>openSinkTo\<close>, \<^verbatim>\<open>closeSinkFr\<close>,
  \<^verbatim>\<open>closeSinkTo\<close>, \<^verbatim>\<open>openTurns\<close> and \<^verbatim>\<open>closeTurns\<close> are not among the files at hand.
  Sink edges are closed by the cost \<^verbatim>\<open>INF\<close> and opened by lowering the cost; the turn
  (bend) edges between the ports of a node are closed and opened by their flag.
\<close>

definition openSinkFr :: "nat \<Rightarrow> real \<Rightarrow> BaseGraph \<Rightarrow> BaseGraph" where
  "openSinkFr n c gg = fold (\<lambda>p. setCost c (n, p)) (portsOf gg n) gg"

definition openSinkTo :: "nat \<Rightarrow> real \<Rightarrow> BaseGraph \<Rightarrow> BaseGraph" where
  "openSinkTo n c gg = fold (\<lambda>p. setCost c (p, n)) (portsOf gg n) gg"



text \<open>The ordered pairs of distinct existing ports of a node.\<close>

definition turnEdges :: "BaseGraph \<Rightarrow> nat \<Rightarrow> gedge list" where
  "turnEdges gg n =
     concat (map (\<lambda>a. map (\<lambda>b. (a, b)) (filter (\<lambda>b. b \<noteq> a) (portsOf gg n))) (portsOf gg n))"



text \<open>
  Modelled from the spec: \<^verbatim>\<open>util::geo::dist\<close> is not among the files at hand; it is the
  Euclidean distance.
\<close>

definition dist_geo :: "point \<Rightarrow> point \<Rightarrow> real" where
  "dist_geo p q = sqrt ((fst p - fst q)\<^sup>2 + (snd p - snd q)\<^sup>2)"

text \<open>\<^verbatim>\<open>OctiHananGraph::ndMovePen\<close>.\<close>

definition ndMovePen :: "BaseGraph \<Rightarrow> CombGraph \<Rightarrow> nat \<Rightarrow> nat \<Rightarrow> real" where
  "ndMovePen gg cg cbNd grNd =
     (let PEN = 1 / 2;
          diagCost = hgBendCosts gg 0 +
            min (diagonalPen (hgC gg))
                (horizontalPen (hgC gg) + verticalPen (hgC gg) + hgBendCosts gg 2);
          vertCost = hgBendCosts gg 0 +
            min (verticalPen (hgC gg))
                (horizontalPen (hgC gg) + diagonalPen (hgC gg) + hgBendCosts gg 3);
          horiCost = hgBendCosts gg 0 +
            min (horizontalPen (hgC gg))
                (verticalPen (hgC gg) + diagonalPen (hgC gg) + hgBendCosts gg 3);
          penPerGrid = PEN + max diagCost (max vertCost horiCost);
          d = dist_geo (cnGeom (cgNode cg cbNd)) (gnGeom (ggNode gg grNd));
          gridD = d / ggCellSize gg
      in gridD * penPerGrid)"

text \<open>
  The formula in the words of the specification: each of the three costs is "a 90-degree
  bend penalty plus the smaller of the direct cost or the two-segment detour cost
  including a 45-degree bend", where the specification numbers the bend penalties by
  \<open>ang\<close> as straight (0), 45 degrees (1), 90 degrees (2).
\<close>

definition ndMovePen_spec :: "BaseGraph \<Rightarrow> CombGraph \<Rightarrow> nat \<Rightarrow> nat \<Rightarrow> real" where
  "ndMovePen_spec gg cg cbNd grNd =
     (let p90 = hgBendCosts gg 2; p45 = hgBendCosts gg 1;
          diagCost = p90 +
            min (diagonalPen (hgC gg)) (horizontalPen (hgC gg) + verticalPen (hgC gg) + p45);
          vertCost = p90 +
            min (verticalPen (hgC gg)) (horizontalPen (hgC gg) + diagonalPen (hgC gg) + p45);
          horiCost = p90 +
            min (horizontalPen (hgC gg)) (verticalPen (hgC gg) + diagonalPen (hgC gg) + p45);
          penPerHop = 1 / 2 + max diagCost (max vertCost horiCost)
      in dist_geo (cnGeom (cgNode cg cbNd)) (gnGeom (ggNode gg grNd)) / ggCellSize gg
           * penPerHop)"

section \<open>Writing a grid node\<close>

datatype error = AssertionFailed string | NullPointer string | RuntimeError string

text \<open>
  Modelled from the spec: the graph container (\<^verbatim>\<open>addNd\<close>, \<^verbatim>\<open>addEdg\<close>, \<^verbatim>\<open>getEdg\<close>) and the
  payload constructors are not among the files at hand. A new node gets a fresh
  address and empty adjacency lists; it is a port until \<^verbatim>\<open>setSink\<close> is called. An edge
  is found in the outgoing list of its start node; \<^verbatim>\<open>addEdg\<close> returns the existing edge
  when there is one and otherwise enters the new edge at both end nodes. A new edge
  payload is open and unblocked.
\<close>

definition addNd :: "point \<Rightarrow> BaseGraph \<Rightarrow> nat \<times> BaseGraph" where
  "addNd geom gg =
     (let p = ggAlloc gg
      in (p, gg\<lparr>ggNds := ggNds gg @ [p], ggAlloc := Suc p,
                ggNode := (ggNode gg)(p :=
                  \<lparr>gnId = 0, gnSink = False, gnParent = p, gnPorts = (\<lambda>i. None),
                   gnXY = (0, 0), gnGeom = geom,
                   gnAdjList = [], gnAdjListIn = [], gnAdjListOut = []\<rparr>)\<rparr>))"

definition getEdg :: "BaseGraph \<Rightarrow> nat \<Rightarrow> nat \<Rightarrow> gedge option" where
  "getEdg gg a b = (if (a, b) \<in> set (gnAdjListOut (ggNode gg a)) then Some (a, b) else None)"

definition GridEdgePL :: "real \<Rightarrow> bool \<Rightarrow> bool \<Rightarrow> GridEdgePL" where
  "GridEdgePL c secondary sink =
     \<lparr>epCost = c, epSecondary = secondary, epSink = sink,
      epClosed = False, epBlocked = False, epId = 0\<rparr>"

definition updNode :: "(GridNode \<Rightarrow> GridNode) \<Rightarrow> nat \<Rightarrow> BaseGraph \<Rightarrow> BaseGraph" where
  "updNode f n gg = gg\<lparr>ggNode := (ggNode gg)(n := f (ggNode gg n))\<rparr>"

definition addEdg :: "nat \<Rightarrow> nat \<Rightarrow> GridEdgePL \<Rightarrow> BaseGraph \<Rightarrow> gedge \<times> BaseGraph" where
  "addEdg a b pl gg =
     (case getEdg gg a b of
        Some e \<Rightarrow> (e, gg)
      | None \<Rightarrow>
          ((a, b),
           updNode (\<lambda>nd. nd\<lparr>gnAdjListIn := gnAdjListIn nd @ [(a, b)]\<rparr>) b
             (updNode (\<lambda>nd. nd\<lparr>gnAdjListOut := gnAdjListOut nd @ [(a, b)],
                                gnAdjList := gnAdjList nd @ [(a, b)]\<rparr>) a
                (gg\<lparr>ggEdgePL := (ggEdgePL gg)((a, b) := pl)\<rparr>))))"

text \<open>\<^verbatim>\<open>e = addEdg(a, b, pl); e->pl().setId(_edgeCount); _edgeCount++;\<close>\<close>

definition addEdgCounted :: "nat \<Rightarrow> nat \<Rightarrow> GridEdgePL \<Rightarrow> BaseGraph \<Rightarrow> BaseGraph" where
  "addEdgCounted a b pl gg =
     (let (e, gg1) = addEdg a b pl gg;
          gg2 = updEdge (\<lambda>p. p\<lparr>epId := hgEdgeCount gg1\<rparr>) e gg1
      in gg2\<lparr>hgEdgeCount := Suc (hgEdgeCount gg2)\<rparr>)"


text \<open>
  The offsets \<^verbatim>\<open>xi\<close>, \<^verbatim>\<open>yi\<close> of port \<open>i\<close> in \<^verbatim>\<open>writeNd\<close>, on \<^verbatim>\<open>int\<close> with truncating
  \<^verbatim>\<open>%\<close> and \<^verbatim>\<open>/\<close>.
\<close>

definition portOffset :: "int \<Rightarrow> int" where
  "portOffset i = (let xi = (4 - (i smod 8)) smod 4 in xi sdiv (\<bar>\<bar>xi\<bar> - 1\<bar> + 1))"

text \<open>One round of the first loop of \<^verbatim>\<open>writeNd\<close>: port \<open>i\<close> and its two sink edges.\<close>

definition writePort :: "nat \<Rightarrow> real \<Rightarrow> real \<Rightarrow> nat \<Rightarrow> BaseGraph \<Rightarrow> BaseGraph" where
  "writePort n xPos yPos i gg =
     (let xi = portOffset (int i);
          yi = portOffset (int i + 2);
          (nn, gg1) = addNd (xPos + real_of_int xi * hgSpacer gg,
                             yPos + real_of_int yi * hgSpacer gg) gg;
          gg2 = updNode (\<lambda>nd. nd\<lparr>gnId := length (hgNds gg1)\<rparr>) nn gg1;
          gg3 = gg2\<lparr>hgNds := hgNds gg2 @ [nn]\<rparr>;
          gg4 = updNode (\<lambda>nd. nd\<lparr>gnParent := n\<rparr>) nn gg3;
          gg5 = updNode (\<lambda>nd. nd\<lparr>gnPorts := (gnPorts nd)(i := Some nn)\<rparr>) n gg4;
          gg6 = addEdgCounted n nn (GridEdgePL (ggInf gg5) True True) gg5
      in addEdgCounted nn n (GridEdgePL (ggInf gg6) True True) gg6)"



text \<open>A loop whose body can fail: the first failure ends it.\<close>

fun foldE :: "('a \<Rightarrow> 's \<Rightarrow> error + 's) \<Rightarrow> 'a list \<Rightarrow> 's \<Rightarrow> error + 's" where
  "foldE f [] s = Inr s"
| "foldE f (x # xs) s = (case f x s of Inl err \<Rightarrow> Inl err | Inr s' \<Rightarrow> foldE f xs s')"






section \<open>The solver facade\<close>

text \<open>
  Modelled from the spec: the solver facade \<^verbatim>\<open>ILPSolver\<close> is not among the files at
  hand. A problem is the list of its rows, each with its terms (column id and
  coefficient) in the order they were added, and the list of its columns; ids are
  positions. \<open>addRow\<close> and \<open>addCol\<close> return the new id. \<open>getVarByName\<close> returns the id of
  the first column of that name among the columns finalised by the last \<open>update\<close>; the
  result \<open>-1\<close> of the source is \<open>None\<close>.
\<close>

datatype RowType = FIX | UP | LO

datatype ColType = BIN | INT' | CONT

datatype SolveType = OPTIM | SUBOPTIM_TIMEOUT | INF'

record Row =
  rowName :: string
  rowRhs :: real
  rowSense :: RowType

record Col =
  colName :: string
  colType :: ColType
  colObj :: real
  colBnds :: "(real \<times> real) option"

record ILPSolver =
  lpRows :: "(Row \<times> (nat \<times> real) list) list"
  lpCols :: "Col list"
  lpVisible :: nat

definition getSolver :: "string \<Rightarrow> ILPSolver" where
  "getSolver solverStr = \<lparr>lpRows = [], lpCols = [], lpVisible = 0\<rparr>"

definition addRow :: "string \<Rightarrow> real \<Rightarrow> RowType \<Rightarrow> ILPSolver \<Rightarrow> nat \<times> ILPSolver" where
  "addRow nm rhs sense lp =
     (length (lpRows lp),
      lp\<lparr>lpRows := lpRows lp @ [(\<lparr>rowName = nm, rowRhs = rhs, rowSense = sense\<rparr>, [])]\<rparr>)"

definition addColBnd ::
  "string \<Rightarrow> ColType \<Rightarrow> real \<Rightarrow> (real \<times> real) option \<Rightarrow> ILPSolver \<Rightarrow> nat \<times> ILPSolver" where
  "addColBnd nm ty obj bnds lp =
     (length (lpCols lp),
      lp\<lparr>lpCols := lpCols lp @ [\<lparr>colName = nm, colType = ty, colObj = obj, colBnds = bnds\<rparr>]\<rparr>)"

definition addCol :: "string \<Rightarrow> ColType \<Rightarrow> real \<Rightarrow> ILPSolver \<Rightarrow> nat \<times> ILPSolver" where
  "addCol nm ty obj lp = addColBnd nm ty obj None lp"

definition addColToRow :: "nat \<Rightarrow> nat \<Rightarrow> real \<Rightarrow> ILPSolver \<Rightarrow> ILPSolver" where
  "addColToRow row col coef lp =
     lp\<lparr>lpRows := (lpRows lp)[row := (fst (lpRows lp ! row), snd (lpRows lp ! row) @ [(col, coef)])]\<rparr>"

fun findIdx :: "('a \<Rightarrow> bool) \<Rightarrow> 'a list \<Rightarrow> nat option" where
  "findIdx P [] = None"
| "findIdx P (x # xs) = (if P x then Some 0 else map_option Suc (findIdx P xs))"

definition getVarByName :: "ILPSolver \<Rightarrow> string \<Rightarrow> nat option" where
  "getVarByName lp nm = findIdx (\<lambda>c. colName c = nm) (take (lpVisible lp) (lpCols lp))"

definition update :: "ILPSolver \<Rightarrow> ILPSolver" where
  "update lp = lp\<lparr>lpVisible := length (lpCols lp)\<rparr>"



text \<open>
  The recurring statements \<^verbatim>\<open>int c = lp->getVarByName(nm); if (c > -1)
  lp->addColToRow(row, c, coef);\<close>
\<close>

definition addVarToRow :: "nat \<Rightarrow> string \<Rightarrow> real \<Rightarrow> ILPSolver \<Rightarrow> ILPSolver" where
  "addVarToRow row nm coef lp =
     (case getVarByName lp nm of None \<Rightarrow> lp | Some c \<Rightarrow> addColToRow row c coef lp)"

section \<open>Building the integer linear program\<close>

text \<open>\<^verbatim>\<open>ILPGridOptimizer::getEdgUseVar\<close> and \<^verbatim>\<open>ILPGridOptimizer::getStatPosVar\<close>.\<close>

definition getEdgUseVar :: "BaseGraph \<Rightarrow> gedge \<Rightarrow> nat \<Rightarrow> string" where
  "getEdgUseVar gg e cg =
     ''edg('' @ showDec (gnId (ggNode gg (fst e))) @ '','' @ showDec (gnId (ggNode gg (snd e)))
       @ '','' @ showPtr cg @ '')''"

definition getStatPosVar :: "BaseGraph \<Rightarrow> nat \<Rightarrow> nat \<Rightarrow> string" where
  "getStatPosVar gg n nd = ''sp('' @ showDec (gnId (ggNode gg n)) @ '','' @ showPtr nd @ '')''"

text \<open>\<^verbatim>\<open>ILPGridOptimizer::nonInfDeg\<close>.\<close>

definition nonInfDeg :: "BaseGraph \<Rightarrow> nat \<Rightarrow> nat" where
  "nonInfDeg gg g = length (filter (\<lambda>e. cost gg e < ggSoftInf gg) (gnAdjList (ggNode gg g)))"

text \<open>
  The first loop of \<^verbatim>\<open>createProblem\<close>: the rows \<^verbatim>\<open>oneass\<close> and the station position
  variables. It opens the sink edges of every candidate and records the candidates in
  \<^verbatim>\<open>cands\<close>, a map from comb nodes to sets of grid nodes.
\<close>

definition statPosStep ::
  "CombGraph \<Rightarrow> real \<Rightarrow> nat \<Rightarrow> nat \<Rightarrow> nat \<Rightarrow>
   ILPSolver \<times> BaseGraph \<times> (nat \<Rightarrow> nat set) \<Rightarrow> ILPSolver \<times> BaseGraph \<times> (nat \<Rightarrow> nat set)" where
  "statPosStep cg maxGrDist nd rowStat n = (\<lambda>(lp, gg, cands).
     if \<not> gnSink (ggNode gg n) then (lp, gg, cands)
     else if gridDeg gg n < combDeg cg nd then (lp, gg, cands)
     else
       let gridD = dist_geo (gnGeom (ggNode gg n)) (cnGeom (cgNode cg nd));
           maxDis = ggCellSize gg * maxGrDist
       in if gridD \<ge> maxDis then (lp, gg, cands)
          else
            let cands1 = cands(nd := insert n (cands nd));
                gg1 = openSinkTo n 0 (openSinkFr n 0 gg);
                varName = getStatPosVar gg1 n nd;
                (col, lp1) = addCol varName BIN (ndMovePen gg1 cg nd n) lp
            in (addColToRow rowStat col 1 lp1, gg1, cands1))"

definition oneAssStep ::
  "CombGraph \<Rightarrow> real \<Rightarrow> nat \<Rightarrow>
   ILPSolver \<times> BaseGraph \<times> (nat \<Rightarrow> nat set) \<Rightarrow> ILPSolver \<times> BaseGraph \<times> (nat \<Rightarrow> nat set)" where
  "oneAssStep cg maxGrDist nd = (\<lambda>(lp, gg, cands).
     if combDeg cg nd = 0 then (lp, gg, cands)
     else
       let (rowStat, lp1) = addRow (''oneass('' @ showPtr nd @ '')'') 1 FIX lp
       in fold (statPosStep cg maxGrDist nd rowStat) (ggNds gg) (lp1, gg, cands))"

text \<open>The second loop: one binary variable per comb edge and usable grid edge.\<close>

definition edgUseStep ::
  "CombGraph \<Rightarrow> (nat \<Rightarrow> nat \<Rightarrow> real) option \<Rightarrow> BaseGraph \<Rightarrow> (nat \<Rightarrow> nat set) \<Rightarrow>
   nat \<Rightarrow> nat \<Rightarrow> gedge \<Rightarrow> ILPSolver \<Rightarrow> ILPSolver" where
  "edgUseStep cg geoPensMap gg cands edg n e lp =
     (if fst e \<noteq> n then lp
      else if cost gg e \<ge> ggSoftInf gg then lp
      else if gnSink (ggNode gg (fst e)) \<and> fst e \<notin> cands (ceFrom (cgEdge cg edg)) then lp
      else if gnSink (ggNode gg (snd e)) \<and> snd e \<notin> cands (ceTo (cgEdge cg edg)) then lp
      else
        let coef = (case geoPensMap of
                      Some m \<Rightarrow>
                        if \<not> epSecondary (ggEdgePL gg e)
                        then cost gg e + m edg (epId (ggEdgePL gg e)) else cost gg e
                    | None \<Rightarrow> cost gg e)
        in snd (addCol (getEdgUseVar gg e edg) BIN coef lp))"

definition edgUseCols ::
  "CombGraph \<Rightarrow> (nat \<Rightarrow> nat \<Rightarrow> real) option \<Rightarrow> BaseGraph \<Rightarrow> (nat \<Rightarrow> nat set) \<Rightarrow>
   ILPSolver \<Rightarrow> ILPSolver" where
  "edgUseCols cg geoPensMap gg cands =
     fold (\<lambda>edg. fold (\<lambda>n. fold (edgUseStep cg geoPensMap gg cands edg n)
                              (gnAdjList (ggNode gg n))) (ggNds gg))
       (fromEdges cg)"

text \<open>The rows \<^verbatim>\<open>ue\<close>: a major edge and its reverse are used at most once.\<close>

definition ueStep ::
  "BaseGraph \<Rightarrow> CombGraph \<Rightarrow> gedge \<Rightarrow> ILPSolver \<times> gedge set \<Rightarrow> ILPSolver \<times> gedge set" where
  "ueStep gg cg e = (\<lambda>(lp, proced).
     if epSecondary (ggEdgePL gg e) then (lp, proced)
     else if e \<in> proced then (lp, proced)
     else
       let f = (snd e, fst e);
           proced1 = insert f (insert e proced);
           (row, lp1) = addRow (''ue('' @ showDec (gnId (ggNode gg (fst e))) @ '',''
                                 @ showDec (gnId (ggNode gg (snd e))) @ '')'') 1 UP lp
       in (fold (\<lambda>edg lp. if cost gg e \<ge> ggSoftInf gg then lp
                           else addVarToRow row (getEdgUseVar gg f edg) 1
                                  (addVarToRow row (getEdgUseVar gg e edg) 1 lp))
             (fromEdges cg) lp1,
           proced1))"

definition ueRows :: "BaseGraph \<Rightarrow> CombGraph \<Rightarrow> ILPSolver \<Rightarrow> ILPSolver" where
  "ueRows gg cg lp =
     fst (fold (\<lambda>n. fold (ueStep gg cg) (gnAdjList (ggNode gg n))) (ggNds gg) (lp, {}))"

text \<open>The rows \<^verbatim>\<open>as\<close>: flow conservation at the grid node \<open>n\<close> for the comb edge \<open>edg\<close>.\<close>

definition asStep :: "BaseGraph \<Rightarrow> CombGraph \<Rightarrow> nat \<Rightarrow> nat \<Rightarrow> ILPSolver \<Rightarrow> ILPSolver" where
  "asStep gg cg n edg lp =
     (let (row, lp1) = addRow (''as('' @ showDec (gnId (ggNode gg n)) @ '','' @ showPtr edg
                                @ '')'') 0 UP lp;
          inCost = - 1;
          (outCost, lp2) =
            (if gnSink (ggNode gg n)
             then (2, addVarToRow row (getStatPosVar gg n (ceTo (cgEdge cg edg))) 1
                        (addVarToRow row (getStatPosVar gg n (ceFrom (cgEdge cg edg))) (- 2) lp1))
             else (1, lp1));
          lp3 = fold (\<lambda>e. addVarToRow row (getEdgUseVar gg e edg) inCost)
                  (gnAdjListIn (ggNode gg n)) lp2
      in fold (\<lambda>e. addVarToRow row (getEdgUseVar gg e edg) outCost)
           (gnAdjListOut (ggNode gg n)) lp3)"

definition asRows :: "BaseGraph \<Rightarrow> CombGraph \<Rightarrow> ILPSolver \<Rightarrow> ILPSolver" where
  "asRows gg cg =
     fold (\<lambda>n lp. if nonInfDeg gg n = 0 then lp else fold (asStep gg cg n) (fromEdges cg) lp)
       (ggNds gg)"

text \<open>The rows \<^verbatim>\<open>ss\<close>: the sink edges used at a sink.\<close>

definition ssStep ::
  "BaseGraph \<Rightarrow> CombGraph \<Rightarrow> (nat \<Rightarrow> nat set) \<Rightarrow> nat \<Rightarrow> nat \<Rightarrow> ILPSolver \<Rightarrow> ILPSolver" where
  "ssStep gg cg cands n e lp =
     (let (row, lp1) = addRow (''ss('' @ showDec (gnId (ggNode gg n)) @ '','' @ showPtr e
                                @ '')'') 0 FIX lp;
          lp2 = (if n \<notin> cands (ceFrom (cgEdge cg e)) \<and> n \<notin> cands (ceTo (cgEdge cg e)) then lp1
                 else
                   let lpa = (if n \<in> cands (ceTo (cgEdge cg e))
                              then addVarToRow row (getStatPosVar gg n (ceTo (cgEdge cg e))) (- 1) lp1
                              else lp1)
                   in if n \<in> cands (ceFrom (cgEdge cg e))
                      then addVarToRow row (getStatPosVar gg n (ceFrom (cgEdge cg e))) (- 1) lpa
                      else lpa)
      in fold (\<lambda>portNd lp. addVarToRow row (getEdgUseVar gg (n, portNd) e) 1
                             (addVarToRow row (getEdgUseVar gg (portNd, n) e) 1 lp))
           (portsOf gg n) lp2)"

definition ssRows ::
  "BaseGraph \<Rightarrow> CombGraph \<Rightarrow> (nat \<Rightarrow> nat set) \<Rightarrow> ILPSolver \<Rightarrow> ILPSolver" where
  "ssRows gg cg cands =
     fold (\<lambda>n lp. if \<not> gnSink (ggNode gg n) then lp
                   else fold (ssStep gg cg cands n) (fromEdges cg) lp)
       (ggNds gg)"

text \<open>The rows \<^verbatim>\<open>iu\<close>: a sink hosts a station or one pass through.\<close>

definition iuStep :: "BaseGraph \<Rightarrow> CombGraph \<Rightarrow> nat \<Rightarrow> ILPSolver \<Rightarrow> ILPSolver" where
  "iuStep gg cg n lp =
     (if \<not> gnSink (ggNode gg n) then lp
      else
        let (row, lp1) = addRow (''iu('' @ showDec (gnId (ggNode gg n)) @ '')'') 1 UP lp;
            lp2 = fold (\<lambda>nd. addVarToRow row (getStatPosVar gg n nd) 1) (cgNds cg) lp1
        in fold (\<lambda>innerE. fold (\<lambda>edg. addVarToRow row (getEdgUseVar gg innerE edg) 1)
                            (fromEdges cg))
             (turnEdges gg n) lp2)"

definition iuRows :: "BaseGraph \<Rightarrow> CombGraph \<Rightarrow> ILPSolver \<Rightarrow> ILPSolver" where
  "iuRows gg cg = fold (iuStep gg cg) (ggNds gg)"

text \<open>The rows \<^verbatim>\<open>nc\<close> of the crossing edge pairs, numbered by \<^verbatim>\<open>rowId\<close>.\<close>

definition ncStep ::
  "BaseGraph \<Rightarrow> CombGraph \<Rightarrow> (gedge \<times> gedge) \<times> (gedge \<times> gedge) \<Rightarrow>
   nat \<times> ILPSolver \<Rightarrow> nat \<times> ILPSolver" where
  "ncStep gg cg edgPair = (\<lambda>(rowId, lp).
     let (row, lp1) = addRow (''nc('' @ showDec rowId @ '')'') 1 UP lp
     in (size_t_add rowId 1,
         fold (\<lambda>edg lp.
                 addVarToRow row (getEdgUseVar gg (snd (snd edgPair)) edg) 1
                   (addVarToRow row (getEdgUseVar gg (fst (snd edgPair)) edg) 1
                     (addVarToRow row (getEdgUseVar gg (snd (fst edgPair)) edg) 1
                       (addVarToRow row (getEdgUseVar gg (fst (fst edgPair)) edg) 1 lp))))
           (fromEdges cg) lp1))"

definition ncRows :: "BaseGraph \<Rightarrow> CombGraph \<Rightarrow> ILPSolver \<Rightarrow> ILPSolver" where
  "ncRows gg cg lp = snd (fold (ncStep gg cg) (ggCrossEdgPairs gg) (0, lp))"

text \<open>
  The direction variables \<^verbatim>\<open>d(nd,edg)\<close> with their rows \<^verbatim>\<open>dc\<close>, for the comb nodes of
  degree at least 2.
\<close>

definition dirName :: "nat \<Rightarrow> nat \<Rightarrow> string" where
  "dirName nd edg = ''d('' @ showPtr nd @ '','' @ showPtr edg @ '')''"

definition dirSinkStep ::
  "BaseGraph \<Rightarrow> CombGraph \<Rightarrow> nat \<Rightarrow> nat \<Rightarrow> nat \<Rightarrow> nat \<Rightarrow> ILPSolver \<Rightarrow> ILPSolver" where
  "dirSinkStep gg cg nd edg row n lp =
     (if \<not> gnSink (ggNode gg n) then lp
      else if getVarByName lp (getStatPosVar gg n nd) = None then lp
      else
        fold (\<lambda>i lp. case getPort gg n i of
                        None \<Rightarrow> lp
                      | Some portNd \<Rightarrow>
                          let e = (if ceFrom (cgEdge cg edg) = nd then (n, portNd) else (portNd, n))
                          in addVarToRow row (getEdgUseVar gg e edg) (real i) lp)
          [1..<maxDeg] lp)"

definition dirStep :: "BaseGraph \<Rightarrow> CombGraph \<Rightarrow> nat \<Rightarrow> nat \<Rightarrow> ILPSolver \<Rightarrow> ILPSolver" where
  "dirStep gg cg nd edg lp =
     (let (col, lp1) = addColBnd (dirName nd edg) INT' 0 (Some (0, real (maxDeg - 1))) lp;
          (row, lp2) = addRow (''dc('' @ showPtr nd @ '','' @ showPtr edg @ '')'') 0 FIX lp1;
          lp3 = addColToRow row col (- 1) lp2
      in fold (dirSinkStep gg cg nd edg row) (ggNds gg) lp3)"

definition dirVars :: "BaseGraph \<Rightarrow> CombGraph \<Rightarrow> ILPSolver \<Rightarrow> ILPSolver" where
  "dirVars gg cg =
     fold (\<lambda>nd lp. if combDeg cg nd < 2 then lp
                    else fold (dirStep gg cg nd) (cnAdjList (cgNode cg nd)) lp)
       (cgNds cg)"

text \<open>
  The circular ordering: the variables \<^verbatim>\<open>vuln\<close> with the row \<^verbatim>\<open>vc\<close> and the rows
  \<^verbatim>\<open>oc\<close>, for the comb nodes of degree at least 3. The five assertions of the source
  are failures.
\<close>

definition vulnName :: "nat \<Rightarrow> nat \<Rightarrow> string" where
  "vulnName nd i = ''vuln('' @ showPtr nd @ '','' @ showDec i @ '')''"

definition ocStep :: "CombGraph \<Rightarrow> nat \<Rightarrow> nat \<Rightarrow> ILPSolver \<Rightarrow> error + ILPSolver" where
  "ocStep cg nd i lp =
     (let order = cnOrder (cgNode cg nd);
          edgA = (if i = 0 then last order else order ! (i - 1));
          edgB = order ! i
      in if edgA = edgB then Inl (AssertionFailed ''edgA != edgB'')
         else case getVarByName lp (dirName nd edgA) of
           None \<Rightarrow> Inl (AssertionFailed ''colA > -1'')
         | Some colA \<Rightarrow>
           (case getVarByName lp (dirName nd edgB) of
              None \<Rightarrow> Inl (AssertionFailed ''colB > -1'')
            | Some colB \<Rightarrow>
              (let (row, lp1) = addRow (''oc('' @ showPtr nd @ '','' @ showDec i @ '')'') 1 LO lp
               in case getVarByName lp1 (vulnName nd i) of
                    None \<Rightarrow> Inl (AssertionFailed ''vulnCol > -1'')
                  | Some vulnCol \<Rightarrow>
                      Inr (addColToRow row vulnCol (real maxDeg)
                            (addColToRow row colA (- 1) (addColToRow row colB 1 lp1))))))"

definition orderStep :: "CombGraph \<Rightarrow> nat \<Rightarrow> ILPSolver \<Rightarrow> error + ILPSolver" where
  "orderStep cg nd lp =
     (if combDeg cg nd < 3 then Inr lp
      else
        let (vulnRow, lp1) = addRow (''vc('' @ showPtr nd @ '')'') 1 FIX lp;
            lp2 = fold (\<lambda>i lp. let (col, lp') = addCol (vulnName nd i) BIN 0 lp
                                in addColToRow vulnRow col 1 lp')
                    [0..<combDeg cg nd] lp1;
            lp3 = update lp2
        in if \<not> length (cnOrder (cgNode cg nd)) > 2 then Inl (AssertionFailed ''order.size() > 2'')
           else foldE (ocStep cg nd) [0..<length (cnOrder (cgNode cg nd))] lp3)"

definition orderRows :: "CombGraph \<Rightarrow> ILPSolver \<Rightarrow> error + ILPSolver" where
  "orderRows cg = foldE (orderStep cg) (cgNds cg)"

text \<open>
  The bend angle between two edges \<open>edgA\<close>, \<open>edgB\<close> at the comb node \<open>nd\<close> that share a
  line: the variable \<^verbatim>\<open>negdist\<close>, the rows \<^verbatim>\<open>nc..lo\<close>, \<^verbatim>\<open>nc..up\<close>, \<^verbatim>\<open>ac\<close> and \<^verbatim>\<open>asc\<close>, and
  the seven bucket variables. \<open>pens\<close> is the result of \<^verbatim>\<open>getCosts()\<close>.
\<close>

definition pairName :: "nat \<Rightarrow> nat \<Rightarrow> string" where
  "pairName edgA edgB = ''('' @ showPtr edgA @ '','' @ showPtr edgB @ '')''"

definition bucketStep ::
  "real list \<Rightarrow> nat \<Rightarrow> nat \<Rightarrow> nat \<Rightarrow> nat \<Rightarrow> nat \<Rightarrow> ILPSolver \<Rightarrow> ILPSolver" where
  "bucketStep pens edgA edgB rowAng rowSum k lp =
     (let M = to_int (length pens);
          pp0 = size_t_sub (size_t_sub (length pens) 1) k;
          pp = (if int k \<ge> M then size_t_sub (k + 1) (length pens) else pp0);
          var = (if int k \<ge> M then ''d'' @ showDec pp @ [CHR 0x27] @ pairName edgA edgB
                 else ''d'' @ showDec pp @ pairName edgA edgB);
          (col, lp1) = addCol var BIN (pens ! pp) lp
      in addColToRow rowSum col 1 (addColToRow rowAng col (- real (k + 1)) lp1))"

definition sharedLines :: "CombGraph \<Rightarrow> nat \<Rightarrow> nat \<Rightarrow> nat" where
  "sharedLines cg edgA edgB =
     length (filter (\<lambda>lo. lo \<in> set (ceLines (cgEdge cg edgB))) (ceLines (cgEdge cg edgA)))"

definition bendStep ::
  "BaseGraph \<Rightarrow> CombGraph \<Rightarrow> nat \<Rightarrow> nat \<times> nat \<Rightarrow> ILPSolver \<Rightarrow> error + ILPSolver" where
  "bendStep gg cg nd ij lp =
     (let edgA = cnAdjList (cgNode cg nd) ! fst ij;
          edgB = cnAdjList (cgNode cg nd) ! snd ij
      in if edgA = edgB then Inl (AssertionFailed ''edgA != edgB'')
         else if sharedLines cg edgA edgB = 0 then Inr lp
         else
           let (colNeg, lp1) = addCol (''negdist'' @ pairName edgA edgB) BIN 0 lp;
               (row1, lp2) = addRow (''nc'' @ pairName edgA edgB @ ''lo'') 0 LO lp1;
               (row2, lp3) = addRow (''nc'' @ pairName edgA edgB @ ''up'')
                               (real (maxDeg - 1)) UP lp2
           in case getVarByName lp3 (dirName nd edgA) of
                None \<Rightarrow> Inl (AssertionFailed ''colA > -1'')
              | Some colA \<Rightarrow>
                  (let lp4 = addColToRow row2 colA 1 (addColToRow row1 colA 1 lp3)
                   in case getVarByName lp4 (dirName nd edgB) of
                        None \<Rightarrow> Inl (AssertionFailed ''colB > -1'')
                      | Some colB \<Rightarrow>
                          (let lp5 = addColToRow row2 colB (- 1) (addColToRow row1 colB (- 1) lp4);
                               lp6 = addColToRow row2 colNeg (real maxDeg)
                                       (addColToRow row1 colNeg (real maxDeg) lp5);
                               (rowAng, lp7) = addRow (''ac'' @ pairName edgA edgB) 0 FIX lp6;
                               lp8 = addColToRow rowAng colNeg (real maxDeg)
                                       (addColToRow rowAng colB (- 1)
                                         (addColToRow rowAng colA 1 lp7));
                               (rowSum, lp9) = addRow (''asc'' @ pairName edgA edgB) 1 UP lp8
                           in Inr (fold (bucketStep (ggCosts gg) edgA edgB rowAng rowSum)
                                     [0..<maxDeg - 1] lp9))))"

text \<open>The pairs \<open>(i, j)\<close> of \<^verbatim>\<open>for (i = 0; i < size; i++) for (j = i + 1; j < size; j++)\<close>.\<close>

definition idxPairs :: "nat \<Rightarrow> (nat \<times> nat) list" where
  "idxPairs m = concat (map (\<lambda>i. map (\<lambda>j. (i, j)) [i + 1..<m]) [0..<m])"

definition bendVars :: "BaseGraph \<Rightarrow> CombGraph \<Rightarrow> ILPSolver \<Rightarrow> error + ILPSolver" where
  "bendVars gg cg =
     foldE (\<lambda>nd. foldE (bendStep gg cg nd) (idxPairs (length (cnAdjList (cgNode cg nd)))))
       (cgNds cg)"

text \<open>
  \<^verbatim>\<open>ILPGridOptimizer::createProblem\<close>. The result is the problem together with the grid,
  which the first loop changes in place.
\<close>

definition createProblem ::
  "BaseGraph \<Rightarrow> CombGraph \<Rightarrow> (nat \<Rightarrow> nat \<Rightarrow> real) option \<Rightarrow> real \<Rightarrow> string \<Rightarrow>
   error + (ILPSolver \<times> BaseGraph)" where
  "createProblem gg cg geoPensMap maxGrDist solverStr =
     (let lp0 = getSolver solverStr;
          (lp1, gg1, cands) = fold (oneAssStep cg maxGrDist) (cgNds cg) (lp0, gg, \<lambda>nd. {});
          lp2 = update (edgUseCols cg geoPensMap gg1 cands lp1);
          lp3 = ueRows gg1 cg lp2;
          lp4 = update (asRows gg1 cg lp3);
          lp5 = ssRows gg1 cg cands lp4;
          lp6 = update (iuRows gg1 cg lp5);
          lp7 = update (ncRows gg1 cg lp6);
          lp8 = update (dirVars gg1 cg lp7)
      in case orderRows cg lp8 of
           Inl err \<Rightarrow> Inl err
         | Inr lp9 \<Rightarrow>
             (case bendVars gg1 cg (update lp9) of
                Inl err \<Rightarrow> Inl err
              | Inr lp10 \<Rightarrow> Inr (update lp10, gg1)))"

text \<open>
  The problem as it reads: every row with its terms, each column id replaced by the
  column it names.
\<close>

definition rowView :: "ILPSolver \<Rightarrow> (Row \<times> (Col \<times> real) list) list" where
  "rowView lp = map (\<lambda>r. (fst r, map (\<lambda>t. (lpCols lp ! fst t, snd t)) (snd r))) (lpRows lp)"

text \<open>The kind of a name: its text before the first opening parenthesis.\<close>

definition kind :: "string \<Rightarrow> string" where
  "kind nm = takeWhile (\<lambda>c. c \<noteq> CHR ''('') nm"

text \<open>The term a variable contributes to a row when it is looked up by its name.\<close>

definition varTerm :: "ILPSolver \<Rightarrow> string \<Rightarrow> real \<Rightarrow> (Col \<times> real) list" where
  "varTerm lp nm coef =
     (case getVarByName lp nm of None \<Rightarrow> [] | Some c \<Rightarrow> [(lpCols lp ! c, coef)])"

section \<open>Reading the integer linear program\<close>

text \<open>
  The definitions of this section describe a problem held by the solver facade: when it
  is well formed, how one state of it extends another, and the rows and columns that
  each loop of \<^verbatim>\<open>createProblem\<close> is expected to emit. They are used in the statements
  about \<^verbatim>\<open>createProblem\<close> only.
\<close>

definition wfLP :: "ILPSolver \<Rightarrow> bool" where
  "wfLP lp \<longleftrightarrow>
     (\<forall>r\<in>set (lpRows lp). \<forall>t\<in>set (snd r). fst t < length (lpCols lp)) \<and>
     lpVisible lp \<le> length (lpCols lp)"

definition ext :: "nat \<Rightarrow> (string \<Rightarrow> bool) \<Rightarrow> (Col \<Rightarrow> bool) \<Rightarrow> ILPSolver \<Rightarrow> ILPSolver \<Rightarrow> bool" where
  "ext N K C lp lp' \<longleftrightarrow>
     (wfLP lp \<and> N \<le> length (lpRows lp) \<and> (\<forall>r\<in>set (drop N (lpRows lp)). K (rowName (fst r))) \<longrightarrow>
      wfLP lp' \<and> N \<le> length (lpRows lp') \<and> (\<forall>r\<in>set (drop N (lpRows lp')). K (rowName (fst r))) \<and>
      take N (lpRows lp') = take N (lpRows lp) \<and>
      (\<exists>nc. lpCols lp' = lpCols lp @ nc \<and> (\<forall>c\<in>set nc. C c)) \<and>
      lpVisible lp \<le> lpVisible lp')"

definition grows :: "(string \<Rightarrow> bool) \<Rightarrow> (Col \<Rightarrow> bool) \<Rightarrow> ILPSolver \<Rightarrow> ILPSolver \<Rightarrow> bool" where
  "grows K C lp lp' \<longleftrightarrow>
     (wfLP lp \<longrightarrow>
      wfLP lp' \<and>
      (\<exists>nr. lpRows lp' = lpRows lp @ nr \<and> (\<forall>r\<in>set nr. K (rowName (fst r)))) \<and>
      (\<exists>nc. lpCols lp' = lpCols lp @ nc \<and> (\<forall>c\<in>set nc. C c)) \<and>
      lpVisible lp \<le> lpVisible lp')"

definition lastRowIs ::
  "ILPSolver \<Rightarrow> (Row \<times> (Col \<times> real) list) list \<Rightarrow> Row \<Rightarrow> (Col \<times> real) list \<Rightarrow> ILPSolver \<Rightarrow> bool" where
  "lastRowIs lp0 V r ts lp \<longleftrightarrow>
     rowView lp = V @ [(r, ts)] \<and> lpCols lp = lpCols lp0 \<and> lpVisible lp = lpVisible lp0"

text \<open>The terms of the row \<open>as\<close> of the grid node \<open>n\<close> and the comb edge \<open>edg\<close>.\<close>

definition asTerms :: "ILPSolver \<Rightarrow> BaseGraph \<Rightarrow> CombGraph \<Rightarrow> nat \<Rightarrow> nat \<Rightarrow> (Col \<times> real) list" where
  "asTerms lp gg cg n edg =
     (if gnSink (ggNode gg n)
      then varTerm lp (getStatPosVar gg n (ceFrom (cgEdge cg edg))) (- 2) @
           varTerm lp (getStatPosVar gg n (ceTo (cgEdge cg edg))) 1
      else []) @
     concat (map (\<lambda>e. varTerm lp (getEdgUseVar gg e edg) (- 1)) (gnAdjListIn (ggNode gg n))) @
     concat (map (\<lambda>e. varTerm lp (getEdgUseVar gg e edg) (if gnSink (ggNode gg n) then 2 else 1))
               (gnAdjListOut (ggNode gg n)))"

definition asRow :: "BaseGraph \<Rightarrow> nat \<Rightarrow> nat \<Rightarrow> Row" where
  "asRow gg n edg =
     \<lparr>rowName = ''as('' @ showDec (gnId (ggNode gg n)) @ '','' @ showPtr edg @ '')'',
      rowRhs = 0, rowSense = UP\<rparr>"

definition appendsRows :: "ILPSolver \<Rightarrow> (Row \<times> (Col \<times> real) list) list \<Rightarrow> ILPSolver \<Rightarrow> bool" where
  "appendsRows lp V lp' \<longleftrightarrow>
     rowView lp' = rowView lp @ V \<and> lpCols lp' = lpCols lp \<and> lpVisible lp' = lpVisible lp"

definition asView :: "ILPSolver \<Rightarrow> BaseGraph \<Rightarrow> CombGraph \<Rightarrow> (Row \<times> (Col \<times> real) list) list" where
  "asView lp gg cg =
     concat (map (\<lambda>n. if nonInfDeg gg n = 0 then []
                       else map (\<lambda>edg. (asRow gg n edg, asTerms lp gg cg n edg)) (fromEdges cg))
       (ggNds gg))"

text \<open>
  A grid sink \<open>n\<close> is admitted as a candidate for the comb node \<open>nd\<close>: it is a sink, its
  degree is at least the degree of \<open>nd\<close>, and its distance to \<open>nd\<close> is less than
  \<open>cellSize * maxGrDist\<close>.
\<close>

definition isCand :: "BaseGraph \<Rightarrow> CombGraph \<Rightarrow> real \<Rightarrow> nat \<Rightarrow> nat \<Rightarrow> bool" where
  "isCand gg cg maxGrDist nd n \<longleftrightarrow>
     gnSink (ggNode gg n) \<and> combDeg cg nd \<le> gridDeg gg n \<and>
     dist_geo (gnGeom (ggNode gg n)) (cnGeom (cgNode cg nd)) < ggCellSize gg * maxGrDist"

definition spCol :: "BaseGraph \<Rightarrow> CombGraph \<Rightarrow> nat \<Rightarrow> nat \<Rightarrow> Col" where
  "spCol gg cg nd n =
     \<lparr>colName = getStatPosVar gg n nd, colType = BIN, colObj = ndMovePen gg cg nd n,
      colBnds = None\<rparr>"

definition oneAssRow :: "nat \<Rightarrow> Row" where
  "oneAssRow nd = \<lparr>rowName = ''oneass('' @ showPtr nd @ '')'', rowRhs = 1, rowSense = FIX\<rparr>"

definition sameGrid :: "BaseGraph \<Rightarrow> BaseGraph \<Rightarrow> bool" where
  "sameGrid gg gg' \<longleftrightarrow> (\<exists>X. gg' = gg\<lparr>ggEdgePL := X\<rparr>)"

definition fillsRow ::
  "ILPSolver \<Rightarrow> (Row \<times> (Col \<times> real) list) list \<Rightarrow> Row \<Rightarrow> (Col \<times> real) list \<Rightarrow> Col list \<Rightarrow>
   ILPSolver \<Rightarrow> bool" where
  "fillsRow lp0 V r ts cs lp \<longleftrightarrow>
     wfLP lp \<and> rowView lp = V @ [(r, ts)] \<and> lpCols lp = lpCols lp0 @ cs \<and>
     lpVisible lp = lpVisible lp0"

definition builds ::
  "ILPSolver \<Rightarrow> (Row \<times> (Col \<times> real) list) list \<Rightarrow> Col list \<Rightarrow> ILPSolver \<Rightarrow> bool" where
  "builds lp V cs lp' \<longleftrightarrow>
     wfLP lp' \<and> rowView lp' = rowView lp @ V \<and> lpCols lp' = lpCols lp @ cs \<and>
     lpVisible lp' = lpVisible lp"

definition candsOf :: "BaseGraph \<Rightarrow> CombGraph \<Rightarrow> real \<Rightarrow> nat \<Rightarrow> nat list" where
  "candsOf gg cg maxGrDist nd = filter (isCand gg cg maxGrDist nd) (ggNds gg)"

text \<open>The name of a row of a crossing edge pair.\<close>

definition crossName :: "string \<Rightarrow> bool" where
  "crossName nm \<longleftrightarrow> kind nm = ''nc'' \<and> last nm = CHR '')''"

text \<open>The column of a direction variable.\<close>

definition dirCol :: "string \<Rightarrow> Col" where
  "dirCol nm = \<lparr>colName = nm, colType = INT', colObj = 0, colBnds = Some (0, 7)\<rparr>"

definition isDirCol :: "Col \<Rightarrow> bool" where
  "isDirCol c \<longleftrightarrow> kind (colName c) = ''d'' \<and> c = dirCol (colName c)"

definition vulnCol :: "nat \<Rightarrow> nat \<Rightarrow> Col" where
  "vulnCol nd i = \<lparr>colName = vulnName nd i, colType = BIN, colObj = 0, colBnds = None\<rparr>"

definition vcRow :: "nat \<Rightarrow> Row" where
  "vcRow nd = \<lparr>rowName = ''vc('' @ showPtr nd @ '')'', rowRhs = 1, rowSense = FIX\<rparr>"

definition ocRow :: "nat \<Rightarrow> nat \<Rightarrow> Row" where
  "ocRow nd i = \<lparr>rowName = ''oc('' @ showPtr nd @ '','' @ showDec i @ '')'', rowRhs = 1, rowSense = LO\<rparr>"

text \<open>The edge before slot \<open>i\<close> in the circular ordering of the comb node \<open>nd\<close>.\<close>

definition prevEdge :: "CombGraph \<Rightarrow> nat \<Rightarrow> nat \<Rightarrow> nat" where
  "prevEdge cg nd i =
     (if i = 0 then last (cnOrder (cgNode cg nd)) else cnOrder (cgNode cg nd) ! (i - 1))"

definition ocTerms :: "CombGraph \<Rightarrow> nat \<Rightarrow> nat \<Rightarrow> (Col \<times> real) list" where
  "ocTerms cg nd i =
     [(dirCol (dirName nd (cnOrder (cgNode cg nd) ! i)), 1),
      (dirCol (dirName nd (prevEdge cg nd i)), - 1),
      (vulnCol nd i, 8)]"

definition found :: "ILPSolver \<Rightarrow> string \<Rightarrow> Col \<Rightarrow> bool" where
  "found lp nm c \<longleftrightarrow> (\<exists>i. getVarByName lp nm = Some i \<and> lpCols lp ! i = c)"

definition vulnInv :: "ILPSolver \<Rightarrow> bool" where
  "vulnInv lp \<longleftrightarrow>
     (\<forall>c\<in>set (lpCols lp). kind (colName c) = ''vuln'' \<longrightarrow>
        c = \<lparr>colName = colName c, colType = BIN, colObj = 0, colBnds = None\<rparr>)"

definition orderViewOf :: "CombGraph \<Rightarrow> nat \<Rightarrow> (Row \<times> (Col \<times> real) list) list" where
  "orderViewOf cg nd =
     (vcRow nd, map (\<lambda>i. (vulnCol nd i, 1)) [0..<combDeg cg nd]) #
     map (\<lambda>i. (ocRow nd i, ocTerms cg nd i)) [0..<length (cnOrder (cgNode cg nd))]"

definition tailIs ::
  "ILPSolver \<Rightarrow> (Row \<times> (Col \<times> real) list) list \<Rightarrow> (Row \<times> (Col \<times> real) list) list \<Rightarrow>
   Col list \<Rightarrow> ILPSolver \<Rightarrow> bool" where
  "tailIs lp0 V T cs lp \<longleftrightarrow>
     wfLP lp \<and> rowView lp = V @ T \<and> lpCols lp = lpCols lp0 @ cs \<and>
     lpVisible lp = lpVisible lp0"

definition negCol :: "nat \<Rightarrow> nat \<Rightarrow> Col" where
  "negCol a b = \<lparr>colName = ''negdist'' @ pairName a b, colType = BIN, colObj = 0, colBnds = None\<rparr>"

definition bucketIdx :: "real list \<Rightarrow> nat \<Rightarrow> nat" where
  "bucketIdx pens k =
     (if int k \<ge> to_int (length pens) then size_t_sub (k + 1) (length pens)
      else size_t_sub (size_t_sub (length pens) 1) k)"

definition bucketCol :: "real list \<Rightarrow> nat \<Rightarrow> nat \<Rightarrow> nat \<Rightarrow> Col" where
  "bucketCol pens a b k =
     \<lparr>colName = ''d'' @ showDec (bucketIdx pens k) @
                 (if int k \<ge> to_int (length pens) then [CHR 0x27] else []) @ pairName a b,
      colType = BIN, colObj = pens ! bucketIdx pens k, colBnds = None\<rparr>"

definition bendBase :: "nat \<Rightarrow> nat \<Rightarrow> nat \<Rightarrow> (Col \<times> real) list" where
  "bendBase nd a b = [(dirCol (dirName nd a), 1), (dirCol (dirName nd b), - 1), (negCol a b, 8)]"

definition bendViewOf :: "real list \<Rightarrow> nat \<Rightarrow> nat \<Rightarrow> nat \<Rightarrow> (Row \<times> (Col \<times> real) list) list" where
  "bendViewOf pens nd a b =
     [(\<lparr>rowName = ''nc'' @ pairName a b @ ''lo'', rowRhs = 0, rowSense = LO\<rparr>, bendBase nd a b),
      (\<lparr>rowName = ''nc'' @ pairName a b @ ''up'', rowRhs = 7, rowSense = UP\<rparr>, bendBase nd a b),
      (\<lparr>rowName = ''ac'' @ pairName a b, rowRhs = 0, rowSense = FIX\<rparr>,
       bendBase nd a b @ map (\<lambda>k. (bucketCol pens a b k, - real (k + 1))) [0..<7]),
      (\<lparr>rowName = ''asc'' @ pairName a b, rowRhs = 1, rowSense = UP\<rparr>,
       map (\<lambda>k. (bucketCol pens a b k, 1)) [0..<7])]"

definition bendColsOf :: "real list \<Rightarrow> nat \<Rightarrow> nat \<Rightarrow> Col list" where
  "bendColsOf pens a b = negCol a b # map (bucketCol pens a b) [0..<7]"

definition dirsFound :: "CombGraph \<Rightarrow> ILPSolver \<Rightarrow> bool" where
  "dirsFound cg lp \<longleftrightarrow>
     wfLP lp \<and>
     (\<forall>nd\<in>set (cgNds cg). \<forall>e\<in>set (cnAdjList (cgNode cg nd)).
        2 \<le> combDeg cg nd \<longrightarrow> found lp (dirName nd e) (dirCol (dirName nd e)))"

definition wfComb :: "CombGraph \<Rightarrow> bool" where
  "wfComb cg \<longleftrightarrow>
     (\<forall>nd\<in>set (cgNds cg).
        distinct (cnAdjList (cgNode cg nd)) \<and>
        (3 \<le> combDeg cg nd \<longrightarrow>
           distinct (cnOrder (cgNode cg nd)) \<and>
           set (cnOrder (cgNode cg nd)) = set (cnAdjList (cgNode cg nd))))"

definition orderView :: "CombGraph \<Rightarrow> (Row \<times> (Col \<times> real) list) list" where
  "orderView cg = concat (map (orderViewOf cg) (filter (\<lambda>nd. 3 \<le> combDeg cg nd) (cgNds cg)))"

definition orderCols :: "CombGraph \<Rightarrow> Col list" where
  "orderCols cg =
     concat (map (\<lambda>nd. map (vulnCol nd) [0..<combDeg cg nd])
       (filter (\<lambda>nd. 3 \<le> combDeg cg nd) (cgNds cg)))"

definition bendPairs :: "CombGraph \<Rightarrow> nat \<Rightarrow> (nat \<times> nat) list" where
  "bendPairs cg nd =
     filter (\<lambda>ab. sharedLines cg (fst ab) (snd ab) \<noteq> 0)
       (map (\<lambda>ij. (cnAdjList (cgNode cg nd) ! fst ij, cnAdjList (cgNode cg nd) ! snd ij))
          (idxPairs (length (cnAdjList (cgNode cg nd)))))"

definition bendView :: "BaseGraph \<Rightarrow> CombGraph \<Rightarrow> (Row \<times> (Col \<times> real) list) list" where
  "bendView gg cg =
     concat (map (\<lambda>nd. concat (map (\<lambda>ab. bendViewOf (ggCosts gg) nd (fst ab) (snd ab))
                                 (bendPairs cg nd)))
       (cgNds cg))"

definition bendCols :: "BaseGraph \<Rightarrow> CombGraph \<Rightarrow> Col list" where
  "bendCols gg cg =
     concat (map (\<lambda>nd. concat (map (\<lambda>ab. bendColsOf (ggCosts gg) (fst ab) (snd ab))
                                 (bendPairs cg nd)))
       (cgNds cg))"

definition dirCols :: "CombGraph \<Rightarrow> Col list" where
  "dirCols cg =
     concat (map (\<lambda>nd. map (\<lambda>e. dirCol (dirName nd e)) (cnAdjList (cgNode cg nd)))
       (filter (\<lambda>nd. 2 \<le> combDeg cg nd) (cgNds cg)))"

definition phase :: "(string \<Rightarrow> bool) \<Rightarrow> (Col \<Rightarrow> bool) \<Rightarrow> ILPSolver \<Rightarrow> ILPSolver \<Rightarrow> bool" where
  "phase K C lp lp' \<longleftrightarrow>
     wfLP lp' \<and>
     (\<exists>nv. rowView lp' = rowView lp @ nv \<and> (\<forall>r\<in>set nv. K (rowName (fst r)))) \<and>
     (\<exists>nc. lpCols lp' = lpCols lp @ nc \<and> (\<forall>c\<in>set nc. C c)) \<and>
     lpVisible lp \<le> lpVisible lp'"

definition midRow :: "string \<Rightarrow> bool" where
  "midRow nm \<longleftrightarrow> kind nm = ''ss'' \<or> kind nm = ''iu'' \<or> crossName nm \<or> kind nm = ''dc''"

definition bendRowName :: "string \<Rightarrow> bool" where
  "bendRowName nm \<longleftrightarrow>
     kind nm = ''ac'' \<or> kind nm = ''asc'' \<or> (kind nm = ''nc'' \<and> last nm \<noteq> CHR '')'')"

definition bendColName :: "string \<Rightarrow> bool" where
  "bendColName nm \<longleftrightarrow>
     kind nm = ''negdist'' \<or> (take 1 (kind nm) = ''d'' \<and> kind nm \<noteq> ''d'')"

definition oneAssView ::
  "BaseGraph \<Rightarrow> CombGraph \<Rightarrow> real \<Rightarrow> (Row \<times> (Col \<times> real) list) list" where
  "oneAssView gg cg maxGrDist =
     map (\<lambda>nd. (oneAssRow nd, map (\<lambda>n. (spCol gg cg nd n, 1)) (candsOf gg cg maxGrDist nd)))
       (filter (\<lambda>nd. combDeg cg nd \<noteq> 0) (cgNds cg))"

definition spCols :: "BaseGraph \<Rightarrow> CombGraph \<Rightarrow> real \<Rightarrow> Col list" where
  "spCols gg cg maxGrDist =
     concat (map (\<lambda>nd. map (spCol gg cg nd) (candsOf gg cg maxGrDist nd))
       (filter (\<lambda>nd. combDeg cg nd \<noteq> 0) (cgNds cg)))"

definition lateCol :: "Col \<Rightarrow> bool" where
  "lateCol c \<longleftrightarrow> take 1 (colName c) = ''d'' \<or> take 1 (colName c) = ''v'' \<or> take 1 (colName c) = ''n''"


section \<open>The optimizer\<close>














section \<open>Example inputs\<close>

text \<open>
  An empty 3 x 3 grid with cell size 10, bend penalties 0, 1, 2, 3 for the angles
  0, 1, 2, 3 and penalties 1, 1 and 3 / 2 per vertical, horizontal and diagonal hop.
\<close>

definition exGrid :: BaseGraph where
  "exGrid =
     \<lparr>ggNds = [],
      ggNode = (\<lambda>n. \<lparr>gnId = 0, gnSink = False, gnParent = n, gnPorts = (\<lambda>p. None),
                     gnXY = (0, 0), gnGeom = (0, 0),
                     gnAdjList = [], gnAdjListIn = [], gnAdjListOut = []\<rparr>),
      ggEdgePL = (\<lambda>e. GridEdgePL 0 False False),
      ggAlloc = 0, ggCellSize = 10, ggInf = 1000000, ggSoftInf = 1000,
      ggCosts = [0, 1, 2, 3], ggCrossEdgPairs = [],
      hgNds = [], hgNdIdx = (\<lambda>i. 0), hgEdgeCount = 0, hgGrid = [],
      hgXWidth = 3, hgYHeight = 3, hgLowerLeft = (0, 0), hgSpacer = 1,
      hgBendCosts = real, hgC = \<lparr>verticalPen = 1, horizontalPen = 1, diagonalPen = 3 / 2\<rparr>\<rparr>"

text \<open>
  A star: the node at address 4096 with three edges, to the nodes at 4128 and 4160 and
  from the node at 4192. The first two edges share line 1, the last two share line 2.
\<close>

definition exComb :: CombGraph where
  "exComb =
     \<lparr>cgNds = [4096, 4128, 4160, 4192],
      cgNode = (\<lambda>a.
         if a = 4096 then \<lparr>cnAdjList = [8192, 8224, 8256], cnOrder = [8192, 8224, 8256],
                           cnGeom = (10, 10)\<rparr>
         else if a = 4128 then \<lparr>cnAdjList = [8192], cnOrder = [8192], cnGeom = (0, 10)\<rparr>
         else if a = 4160 then \<lparr>cnAdjList = [8224], cnOrder = [8224], cnGeom = (20, 10)\<rparr>
         else \<lparr>cnAdjList = [8256], cnOrder = [8256], cnGeom = (10, 0)\<rparr>),
      cgEdge = (\<lambda>e.
         if e = 8192 then \<lparr>ceFrom = 4096, ceTo = 4128, ceLines = [1]\<rparr>
         else if e = 8224 then \<lparr>ceFrom = 4096, ceTo = 4160, ceLines = [1, 2]\<rparr>
         else \<lparr>ceFrom = 4192, ceTo = 4096, ceLines = [2]\<rparr>)\<rparr>"





section \<open>Properties of the port angles\<close>

lemma to_int_small: "n < 8 \<Longrightarrow> to_int n = int n"
  by (simp add: to_int_def)

lemma ang_first_small:
  assumes "i < 8" "j < 8"
  shows "size_t_add 8 (size_t_sub i j) mod 8 = (8 + i - j) mod 8"
proof -
  have d: "(8::nat) dvd 2 ^ 64" by simp
  have "size_t_add 8 (size_t_sub i j) = (8 + (i + 2 ^ 64 - j)) mod 2 ^ 64"
    using assms by (simp add: size_t_add_def size_t_sub_def mod_simps)
  then have "size_t_add 8 (size_t_sub i j) mod 8 = (8 + (i + 2 ^ 64 - j)) mod 8"
    using mod_mod_cancel [OF d] by simp
  also have "8 + (i + 2 ^ 64 - j) = (8 + i - j) + 2305843009213693952 * 8"
    using assms by simp
  also have "\<dots> mod 8 = (8 + i - j) mod 8"
    by (rule mod_mult_self1)
  finally show ?thesis .
qed

lemma smod_nonneg: "0 \<le> a \<Longrightarrow> 0 < b \<Longrightarrow> a smod b = a mod (b::int)"
  by (simp add: signed_modulo_int_def sgn_if)

lemma smod_wrap8: "((d smod 8) + 8) smod 8 = d mod (8::int)"
proof (cases "0 \<le> d")
  case True
  then show ?thesis by (simp add: smod_nonneg)
next
  case False
  then have e: "d smod 8 = - ((- d) mod 8)"
    by (simp add: signed_modulo_int_def sgn_if)
  have "0 \<le> (- d) mod 8" "(- d) mod 8 < 8" by simp_all
  then have "0 \<le> d smod 8 + 8" unfolding e by linarith
  then have "((d smod 8) + 8) smod 8 = (d smod 8 + 8) mod 8"
    by (simp add: smod_nonneg)
  also have "\<dots> = (- ((- d) mod 8)) mod 8" unfolding e by simp
  also have "\<dots> = d mod 8" by (simp add: mod_minus_eq)
  finally show ?thesis .
qed

lemma ang_ang_S: "i < 8 \<Longrightarrow> j < 8 \<Longrightarrow> ang_ang i j = angS i j"
  unfolding ang_ang_def ang_first_small angS_def Let_def to_int_def
  by (simp add: smod_nonneg)

lemma ang_deg_S: "i < 8 \<Longrightarrow> j < 8 \<Longrightarrow> ang_deg i j = degS i j"
  unfolding ang_deg_def degS_def Let_def smod_wrap8
  by (simp add: to_int_small smod_nonneg)

lemma ports8: "[0..<8] = [0, 1, 2, 3, 4, 5, 6, 7::nat]"
  by (simp add: upt_rec)

lemma ang_tableS:
  "list_all (\<lambda>i. list_all (\<lambda>j. degS i j = angS i j \<and> angS i j = angS j i \<and>
       0 \<le> angS i j \<and> angS i j < 4 \<and> (i = j + 4 \<or> j = i + 4 \<longrightarrow> angS i j = 0))
     [0, 1, 2, 3, 4, 5, 6, 7]) [0, 1, 2, 3, 4, 5, 6, 7]"
  by (simp add: angS_def degS_def)

lemma ang_small:
  assumes "i < 8" "j < 8"
  shows "degS i j = angS i j \<and> angS i j = angS j i \<and> 0 \<le> angS i j \<and> angS i j < 4 \<and>
         (i = j + 4 \<or> j = i + 4 \<longrightarrow> angS i j = 0)"
proof -
  have "i \<in> set [0..<8]" "j \<in> set [0..<8]" using assms by simp_all
  then show ?thesis using ang_tableS unfolding ports8 list_all_iff by blast
qed

lemma ang_Some: "i < 8 \<Longrightarrow> j < 8 \<Longrightarrow> ang i j = Some (nat (angS i j))"
  using ang_small [of i j] by (simp add: ang_def ang_ang_S ang_deg_S)

text \<open>
  Claim C10. For all ports \<open>i\<close>, \<open>j\<close> in \<open>0..7\<close> the two angle computations inside
  \<^verbatim>\<open>OctiHananGraph::ang\<close> agree, so the assertion never fails and the call returns; the
  result is symmetric, lies in \<open>{0, 1, 2, 3}\<close>, and is \<open>0\<close> for opposite ports
  (\<open>|i - j| = 4\<close>).
\<close>

theorem ang_assertion_holds:
  assumes "i < 8" and "j < 8"
  shows "ang_deg i j = ang_ang i j \<and>
         (\<exists>a. ang i j = Some a \<and> a \<in> {0, 1, 2, 3} \<and> ang j i = Some a) \<and>
         (i = j + 4 \<or> j = i + 4 \<longrightarrow> ang i j = Some 0)"
proof -
  note s = ang_small [OF assms]
  have a: "ang i j = Some (nat (angS i j))" and b: "ang j i = Some (nat (angS j i))"
    using assms by (simp_all add: ang_Some)
  have "nat (angS i j) < 4" using s by linarith
  then have "nat (angS i j) \<in> {0, 1, 2, 3}" by auto
  moreover have "ang_deg i j = ang_ang i j"
    using s assms by (simp add: ang_ang_S ang_deg_S)
  moreover have "i = j + 4 \<or> j = i + 4 \<longrightarrow> ang i j = Some 0"
  proof
    assume "i = j + 4 \<or> j = i + 4"
    then have "angS i j = 0" using s by blast
    then show "ang i j = Some 0" using a by simp
  qed
  ultimately show ?thesis using a b s by simp
qed

theorem ang_assertion_holds_witness:
  "(1::nat) < 8 \<and> (5::nat) < 8 \<and> ang_deg 1 5 = ang_ang 1 5 \<and> ang 1 5 = Some 0 \<and> ang 5 1 = Some 0"
  using ang_assertion_holds [of 1 5] by auto

section \<open>The node written by \<open>writeNd\<close>\<close>

lemma addEdgCounted_frame [simp]:
  "ggAlloc (addEdgCounted a b pl s) = ggAlloc s"
  "ggInf (addEdgCounted a b pl s) = ggInf s"
  "hgBendCosts (addEdgCounted a b pl s) = hgBendCosts s"
  "hgXWidth (addEdgCounted a b pl s) = hgXWidth s"
  "hgYHeight (addEdgCounted a b pl s) = hgYHeight s"
  "hgSpacer (addEdgCounted a b pl s) = hgSpacer s"
  "gnPorts (ggNode (addEdgCounted a b pl s) m) = gnPorts (ggNode s m)"
  by (simp_all add: addEdgCounted_def addEdg_def updEdge_def updNode_def Let_def split_def
        split: option.splits)



lemma writePort_frame [simp]:
  "ggAlloc (writePort n xp yp i s) = Suc (ggAlloc s)"
  "ggInf (writePort n xp yp i s) = ggInf s"
  "hgBendCosts (writePort n xp yp i s) = hgBendCosts s"
  "hgXWidth (writePort n xp yp i s) = hgXWidth s"
  "hgYHeight (writePort n xp yp i s) = hgYHeight s"
  by (simp_all add: writePort_def addNd_def updNode_def Let_def split_def)



















section \<open>The displacement penalty\<close>

text \<open>
  Claim C8, amended. \<open>ndMovePen\<close> is the distance of the two nodes divided by the cell
  size, times \<open>1 / 2\<close> plus the largest of three costs; each cost is the bend penalty of
  angle 0 (\<^verbatim>\<open>_bendCosts[0]\<close>) plus the smaller of the direct hop and the two-hop detour,
  the detour of the diagonal including \<^verbatim>\<open>_bendCosts[2]\<close> and the detours of the vertical
  and the horizontal including \<^verbatim>\<open>_bendCosts[3]\<close>.
\<close>

theorem ndMovePen_formula:
  "ndMovePen gg cg cbNd grNd =
     dist_geo (cnGeom (cgNode cg cbNd)) (gnGeom (ggNode gg grNd)) / ggCellSize gg *
       (1 / 2 + (hgBendCosts gg 0 +
         max (min (diagonalPen (hgC gg))
                  (horizontalPen (hgC gg) + verticalPen (hgC gg) + hgBendCosts gg 2))
             (max (min (verticalPen (hgC gg))
                       (horizontalPen (hgC gg) + diagonalPen (hgC gg) + hgBendCosts gg 3))
                  (min (horizontalPen (hgC gg))
                       (verticalPen (hgC gg) + diagonalPen (hgC gg) + hgBendCosts gg 3)))))"
  unfolding ndMovePen_def Let_def by (simp add: max_add_distrib_right)

text \<open>
  Claim C8 as stated fails: with the bend penalties 0, 1, 2, 3 the code yields 2 for a
  node one cell away, the formula of the specification 4.
\<close>

theorem ndMovePen_counterexample:
  "ndMovePen exGrid exComb 4128 0 = 2 \<and> ndMovePen_spec exGrid exComb 4128 0 = 4"
  by (simp add: ndMovePen_def ndMovePen_spec_def exGrid_def exComb_def dist_geo_def)

section \<open>The rows and columns built by \<open>createProblem\<close>\<close>

lemma ext_refl [simp]: "ext N K C lp lp"
  by (simp add: ext_def)

lemma ext_trans:
  assumes 1: "ext N K C lp lp'" and 2: "ext N K C lp' lp''"
  shows "ext N K C lp lp''"
  unfolding ext_def
proof (intro impI)
  assume a: "wfLP lp \<and> N \<le> length (lpRows lp) \<and> (\<forall>r\<in>set (drop N (lpRows lp)). K (rowName (fst r)))"
  with 1 have b: "wfLP lp' \<and> N \<le> length (lpRows lp') \<and> (\<forall>r\<in>set (drop N (lpRows lp')). K (rowName (fst r)))"
    and b1: "take N (lpRows lp') = take N (lpRows lp)"
    and b2: "\<exists>nc. lpCols lp' = lpCols lp @ nc \<and> (\<forall>c\<in>set nc. C c)"
    and b3: "lpVisible lp \<le> lpVisible lp'"
    unfolding ext_def by blast+
  from b 2 have c: "wfLP lp'' \<and> N \<le> length (lpRows lp'') \<and> (\<forall>r\<in>set (drop N (lpRows lp'')). K (rowName (fst r)))"
    and c1: "take N (lpRows lp'') = take N (lpRows lp')"
    and c2: "\<exists>nc. lpCols lp'' = lpCols lp' @ nc \<and> (\<forall>c\<in>set nc. C c)"
    and c3: "lpVisible lp' \<le> lpVisible lp''"
    unfolding ext_def by blast+
  from b2 c2 obtain n1 n2 where n: "lpCols lp' = lpCols lp @ n1" "\<forall>c\<in>set n1. C c"
    "lpCols lp'' = lpCols lp' @ n2" "\<forall>c\<in>set n2. C c" by blast
  then have "lpCols lp'' = lpCols lp @ (n1 @ n2) \<and> (\<forall>c\<in>set (n1 @ n2). C c)" by auto
  then have "\<exists>nc. lpCols lp'' = lpCols lp @ nc \<and> (\<forall>c\<in>set nc. C c)" by blast
  then show "wfLP lp'' \<and> N \<le> length (lpRows lp'') \<and> (\<forall>r\<in>set (drop N (lpRows lp'')). K (rowName (fst r))) \<and>
      take N (lpRows lp'') = take N (lpRows lp) \<and>
      (\<exists>nc. lpCols lp'' = lpCols lp @ nc \<and> (\<forall>c\<in>set nc. C c)) \<and>
      lpVisible lp \<le> lpVisible lp''"
    using c c1 b1 b3 c3 by simp
qed

lemma ext_fold:
  "(\<And>x lp. x \<in> set xs \<Longrightarrow> ext N K C lp (f x lp)) \<Longrightarrow> ext N K C lp (fold f xs lp)"
proof (induction xs arbitrary: lp)
  case Nil
  then show ?case by simp
next
  case (Cons x xs)
  have "ext N K C lp (f x lp)" using Cons.prems by simp
  moreover have "ext N K C (f x lp) (fold f xs (f x lp))"
    using Cons.prems by (intro Cons.IH) simp
  ultimately show ?case by (simp add: ext_trans [of N K C lp "f x lp"])
qed

lemma ext_update: "ext N K C lp (update lp)"
  by (simp add: ext_def update_def wfLP_def)

lemma findIdx_Some: "findIdx P xs = Some i \<Longrightarrow> i < length xs \<and> P (xs ! i)"
proof (induction xs arbitrary: i)
  case Nil
  then show ?case by simp
next
  case (Cons x xs)
  then show ?case by (cases "P x") (auto split: if_splits)
qed

lemma getVarByName_Some:
  "getVarByName lp nm = Some c \<Longrightarrow> c < lpVisible lp \<and> c < length (lpCols lp) \<and> colName (lpCols lp ! c) = nm"
  unfolding getVarByName_def by (drule findIdx_Some) auto

lemma ext_addColToRow:
  assumes "wfLP lp \<Longrightarrow> N \<le> row \<and> col < length (lpCols lp)"
  shows "ext N K C lp (addColToRow row col coef lp)"
  unfolding ext_def
proof (intro impI)
  assume a: "wfLP lp \<and> N \<le> length (lpRows lp) \<and> (\<forall>r\<in>set (drop N (lpRows lp)). K (rowName (fst r)))"
  then have rc: "N \<le> row" "col < length (lpCols lp)" using assms by simp_all
  let ?lp = "addColToRow row col coef lp"
  have rows: "lpRows ?lp = (lpRows lp)[row := (fst (lpRows lp ! row), snd (lpRows lp ! row) @ [(col, coef)])]"
    and cols: "lpCols ?lp = lpCols lp" and vis: "lpVisible ?lp = lpVisible lp"
    by (simp_all add: addColToRow_def)
  have wf: "wfLP ?lp"
    unfolding wfLP_def cols vis rows
  proof (intro conjI ballI)
    fix r t
    assume r: "r \<in> set ((lpRows lp)[row := (fst (lpRows lp ! row), snd (lpRows lp ! row) @ [(col, coef)])])"
      and t: "t \<in> set (snd r)"
    from r have "r \<in> set (lpRows lp) \<or> (row < length (lpRows lp) \<and> r = (fst (lpRows lp ! row), snd (lpRows lp ! row) @ [(col, coef)]))"
    proof (cases "row < length (lpRows lp)")
      case True
      then show ?thesis using r set_update_subset_insert [of "lpRows lp" row] by auto
    next
      case False
      then show ?thesis using r by (simp add: list_update_beyond)
    qed
    then show "fst t < length (lpCols lp)"
    proof
      assume "r \<in> set (lpRows lp)"
      then show ?thesis using t a unfolding wfLP_def by blast
    next
      assume b: "row < length (lpRows lp) \<and> r = (fst (lpRows lp ! row), snd (lpRows lp ! row) @ [(col, coef)])"
      then have "lpRows lp ! row \<in> set (lpRows lp)" by simp
      then have "\<forall>t\<in>set (snd (lpRows lp ! row)). fst t < length (lpCols lp)"
        using a unfolding wfLP_def by blast
      then show ?thesis using t b rc by auto
    qed
  next
    show "lpVisible lp \<le> length (lpCols lp)" using a unfolding wfLP_def by simp
  qed
  have kinds: "\<forall>r\<in>set (drop N (lpRows ?lp)). K (rowName (fst r))"
  proof
    fix r assume "r \<in> set (drop N (lpRows ?lp))"
    then obtain i where i: "i < length (drop N (lpRows ?lp))" "r = drop N (lpRows ?lp) ! i"
      by (auto simp: in_set_conv_nth)
    then have il: "N + i < length (lpRows lp)" unfolding rows by simp
    have "fst r = fst (lpRows lp ! (N + i))"
      using i il unfolding rows by (cases "N + i = row") simp_all
    moreover have "lpRows lp ! (N + i) \<in> set (drop N (lpRows lp))"
    proof -
      have "drop N (lpRows lp) ! i \<in> set (drop N (lpRows lp))"
        using il by (intro nth_mem) simp
      then show ?thesis using il by simp
    qed
    ultimately show "K (rowName (fst r))" using a by simp
  qed
  show "wfLP ?lp \<and> N \<le> length (lpRows ?lp) \<and> (\<forall>r\<in>set (drop N (lpRows ?lp)). K (rowName (fst r))) \<and>
      take N (lpRows ?lp) = take N (lpRows lp) \<and>
      (\<exists>nc. lpCols ?lp = lpCols lp @ nc \<and> (\<forall>c\<in>set nc. C c)) \<and>
      lpVisible lp \<le> lpVisible ?lp"
    using wf kinds a rc by (simp add: rows cols vis)
qed

lemma ext_addVarToRow:
  assumes "N \<le> row"
  shows "ext N K C lp (addVarToRow row nm coef lp)"
proof (cases "getVarByName lp nm")
  case None
  then show ?thesis by (simp add: addVarToRow_def)
next
  case (Some c)
  then show ?thesis
    using getVarByName_Some [OF Some] assms
    by (simp add: addVarToRow_def ext_addColToRow)
qed

lemma ext_addRow:
  assumes "K nm"
  shows "ext N K C lp (snd (addRow nm rhs sense lp))"
  using assms unfolding ext_def addRow_def wfLP_def by auto

lemma ext_addColBnd:
  assumes "C \<lparr>colName = nm, colType = ty, colObj = obj, colBnds = b\<rparr>"
  shows "ext N K C lp (snd (addColBnd nm ty obj b lp))"
  using assms unfolding ext_def addColBnd_def wfLP_def by (auto simp: less_Suc_eq)

lemma ext_addCol:
  assumes "C \<lparr>colName = nm, colType = ty, colObj = obj, colBnds = None\<rparr>"
  shows "ext N K C lp (snd (addCol nm ty obj lp))"
  unfolding addCol_def using assms by (rule ext_addColBnd)

lemma ext_grows:
  assumes "ext (length (lpRows lp)) K C lp lp'"
  shows "grows K C lp lp'"
  unfolding grows_def
proof
  assume wf: "wfLP lp"
  with assms have p: "wfLP lp'" "length (lpRows lp) \<le> length (lpRows lp')"
    "\<forall>r\<in>set (drop (length (lpRows lp)) (lpRows lp')). K (rowName (fst r))"
    "take (length (lpRows lp)) (lpRows lp') = lpRows lp"
    "\<exists>nc. lpCols lp' = lpCols lp @ nc \<and> (\<forall>c\<in>set nc. C c)"
    "lpVisible lp \<le> lpVisible lp'"
    unfolding ext_def by simp_all
  have "lpRows lp' = lpRows lp @ drop (length (lpRows lp)) (lpRows lp')"
    using p(4) by (metis append_take_drop_id)
  then have "\<exists>nr. lpRows lp' = lpRows lp @ nr \<and> (\<forall>r\<in>set nr. K (rowName (fst r)))"
    using p(3) by blast
  then show "wfLP lp' \<and>
      (\<exists>nr. lpRows lp' = lpRows lp @ nr \<and> (\<forall>r\<in>set nr. K (rowName (fst r)))) \<and>
      (\<exists>nc. lpCols lp' = lpCols lp @ nc \<and> (\<forall>c\<in>set nc. C c)) \<and>
      lpVisible lp \<le> lpVisible lp'"
    using p by simp
qed

lemma grows_mono:
  assumes g: "grows K C lp lp'" and k: "\<And>nm. K nm \<Longrightarrow> K' nm" and c: "\<And>c. C c \<Longrightarrow> C' c"
  shows "grows K' C' lp lp'"
  unfolding grows_def
proof
  assume "wfLP lp"
  with g obtain nr nc where p: "wfLP lp'" "lpRows lp' = lpRows lp @ nr"
    "\<forall>r\<in>set nr. K (rowName (fst r))" "lpCols lp' = lpCols lp @ nc" "\<forall>c\<in>set nc. C c"
    "lpVisible lp \<le> lpVisible lp'"
    unfolding grows_def by blast
  have "\<forall>r\<in>set nr. K' (rowName (fst r))" "\<forall>c\<in>set nc. C' c"
    using p(3,5) k c by blast+
  then show "wfLP lp' \<and>
      (\<exists>nr. lpRows lp' = lpRows lp @ nr \<and> (\<forall>r\<in>set nr. K' (rowName (fst r)))) \<and>
      (\<exists>nc. lpCols lp' = lpCols lp @ nc \<and> (\<forall>c\<in>set nc. C' c)) \<and>
      lpVisible lp \<le> lpVisible lp'"
    using p by blast
qed

lemma rowView_append_cols:
  assumes "wfLP lp" "lpRows lp' = lpRows lp @ nr" "lpCols lp' = lpCols lp @ nc"
  shows "rowView lp' = rowView lp @ map (\<lambda>r. (fst r, map (\<lambda>t. (lpCols lp' ! fst t, snd t)) (snd r))) nr"
proof -
  have "map (\<lambda>t. ((lpCols lp @ nc) ! fst t, snd t)) (snd r) = map (\<lambda>t. (lpCols lp ! fst t, snd t)) (snd r)"
    if "r \<in> set (lpRows lp)" for r
    using assms(1) that unfolding wfLP_def by (auto simp add: nth_append)
  then show ?thesis
    unfolding rowView_def assms(2,3) by simp
qed

lemma grows_rowView:
  assumes "grows K C lp lp'" "wfLP lp"
  shows "\<exists>nv. rowView lp' = rowView lp @ nv \<and> (\<forall>r\<in>set nv. K (rowName (fst r)))"
proof -
  from assms obtain nr nc where n: "lpRows lp' = lpRows lp @ nr" "\<forall>r\<in>set nr. K (rowName (fst r))"
    "lpCols lp' = lpCols lp @ nc"
    unfolding grows_def by blast
  show ?thesis
    using rowView_append_cols [OF assms(2) n(1) n(3)] n(2) by auto
qed

lemma findIdx_append_Some: "findIdx P xs = Some i \<Longrightarrow> findIdx P (xs @ ys) = Some i"
  by (induction xs arbitrary: i) (auto split: if_splits)

lemma findIdx_None: "findIdx P xs = None \<longleftrightarrow> (\<forall>x\<in>set xs. \<not> P x)"
  by (induction xs) auto

lemma findIdx_append_None: "\<forall>y\<in>set ys. \<not> P y \<Longrightarrow> findIdx P (xs @ ys) = findIdx P xs"
  by (induction xs) (auto simp add: findIdx_None)

lemma getVarByName_mono:
  assumes "getVarByName lp nm = Some c" "lpCols lp' = lpCols lp @ nc"
    "lpVisible lp \<le> lpVisible lp'" "wfLP lp"
  shows "getVarByName lp' nm = Some c"
proof -
  have "lpVisible lp \<le> length (lpCols lp)" using assms(4) unfolding wfLP_def by simp
  then have "take (lpVisible lp) (take (lpVisible lp') (lpCols lp @ nc)) = take (lpVisible lp) (lpCols lp)"
    using assms(3) by (simp add: min_def)
  then have "take (lpVisible lp') (lpCols lp @ nc)
          = take (lpVisible lp) (lpCols lp) @ drop (lpVisible lp) (take (lpVisible lp') (lpCols lp @ nc))"
    by (metis append_take_drop_id)
  then show ?thesis
    using assms(1) unfolding getVarByName_def assms(2) by (simp add: findIdx_append_Some)
qed

lemma getVarByName_stable:
  assumes "lpVisible lp = length (lpCols lp)" "lpCols lp' = lpCols lp @ nc"
    "lpVisible lp \<le> lpVisible lp'" "\<forall>c\<in>set nc. colName c \<noteq> nm"
  shows "getVarByName lp' nm = getVarByName lp nm"
proof -
  have "take (lpVisible lp') (lpCols lp @ nc) = lpCols lp @ take (lpVisible lp' - length (lpCols lp)) nc"
    using assms(1,3) by simp
  moreover have "\<forall>y\<in>set (take (lpVisible lp' - length (lpCols lp)) nc). \<not> colName y = nm"
    using assms(4) by (auto dest: in_set_takeD)
  ultimately show ?thesis
    unfolding getVarByName_def assms(2) using assms(1)
    by (simp add: findIdx_append_None)
qed

lemma ext_fold_gen:
  "(\<And>x s. x \<in> set xs \<Longrightarrow> ext N K C (g s) (g (f x s))) \<Longrightarrow> ext N K C (g s) (g (fold f xs s))"
proof (induction xs arbitrary: s)
  case Nil
  then show ?case by simp
next
  case (Cons x xs)
  have "ext N K C (g s) (g (f x s))" using Cons.prems by simp
  moreover have "ext N K C (g (f x s)) (g (fold f xs (f x s)))"
    using Cons.prems by (intro Cons.IH) simp
  ultimately show ?case by (simp add: ext_trans [of N K C "g s" "g (f x s)"])
qed

lemma ext_fold_fst:
  "(\<And>x s. x \<in> set xs \<Longrightarrow> ext N K C (fst s) (fst (f x s))) \<Longrightarrow> ext N K C (fst s) (fst (fold f xs s))"
  by (rule ext_fold_gen)

lemma ext_fold_snd:
  "(\<And>x s. x \<in> set xs \<Longrightarrow> ext N K C (snd s) (snd (f x s))) \<Longrightarrow> ext N K C (snd s) (snd (fold f xs s))"
  by (rule ext_fold_gen)

lemma ext_seq:
  assumes "ext N K C lp lp1"
    and "wfLP lp \<Longrightarrow> N \<le> length (lpRows lp) \<Longrightarrow> ext N K C lp1 lp2"
  shows "ext N K C lp lp2"
proof (cases "wfLP lp \<and> N \<le> length (lpRows lp)")
  case True
  then show ?thesis using assms ext_trans by blast
next
  case False
  then show ?thesis unfolding ext_def by blast
qed

lemma ext_addRow_then:
  assumes "K nm"
    and "\<And>lp1. N \<le> length (lpRows lp) \<Longrightarrow> ext N K C lp1 (F lp1)"
  shows "ext N K C lp (F (snd (addRow nm rhs sense lp)))"
  by (rule ext_seq [OF ext_addRow [of K nm, OF assms(1)]]) (rule assms(2))

lemma addRow_fst [simp]: "fst (addRow nm rhs sense lp) = length (lpRows lp)"
  by (simp add: addRow_def)

lemma addColBnd_fst [simp]: "fst (addColBnd nm ty obj b lp) = length (lpCols lp)"
  by (simp add: addColBnd_def)

lemma addCol_fst [simp]: "fst (addCol nm ty obj lp) = length (lpCols lp)"
  by (simp add: addCol_def)

lemma ext_addVarToRow2:
  assumes "N \<le> row"
  shows "ext N K C lp (addVarToRow row nm2 k2 (addVarToRow row nm1 k1 lp))"
  using ext_trans [OF ext_addVarToRow [OF assms] ext_addVarToRow [OF assms]] .

lemma ext_edgUseStep:
  "ext N K (\<lambda>c. kind (colName c) = ''edg'') lp (edgUseStep cg geo gg cands edg n e lp)"
proof -
  have "ext N K (\<lambda>c. kind (colName c) = ''edg'') lp (snd (addCol (getEdgUseVar gg e edg) BIN k lp))" for k
    by (rule ext_addCol) (simp add: getEdgUseVar_def kind_def)
  then show ?thesis by (simp add: edgUseStep_def Let_def)
qed

lemma ext_edgUseCols:
  "ext N K (\<lambda>c. kind (colName c) = ''edg'') lp (edgUseCols cg geo gg cands lp)"
  unfolding edgUseCols_def
  by (intro ext_fold ext_edgUseStep)

lemma ext_ueStep:
  "ext N (\<lambda>nm. kind nm = ''ue'') C (fst s) (fst (ueStep gg cg e s))"
proof -
  obtain lp proced where s: "s = (lp, proced)" by (cases s)
  let ?nm = "''ue('' @ showDec (gnId (ggNode gg (fst e))) @ '','' @ showDec (gnId (ggNode gg (snd e))) @ '')''"
  let ?F = "fold (\<lambda>edg lp. if cost gg e \<ge> ggSoftInf gg then lp
                           else addVarToRow (length (lpRows lp)) (getEdgUseVar gg (snd e, fst e) edg) 1
                                  (addVarToRow (length (lpRows lp)) (getEdgUseVar gg e edg) 1 lp))
             (fromEdges cg)"
  have "ext N (\<lambda>nm. kind nm = ''ue'') C lp
     (fold (\<lambda>edg lp'. if cost gg e \<ge> ggSoftInf gg then lp'
                           else addVarToRow (length (lpRows lp)) (getEdgUseVar gg (snd e, fst e) edg) 1
                                  (addVarToRow (length (lpRows lp)) (getEdgUseVar gg e edg) 1 lp'))
             (fromEdges cg) (snd (addRow ?nm 1 UP lp)))"
  proof (rule ext_addRow_then)
    show "kind ?nm = ''ue''" by (simp add: kind_def)
  next
    fix lp1 assume "N \<le> length (lpRows lp)"
    then show "ext N (\<lambda>nm. kind nm = ''ue'') C lp1
     (fold (\<lambda>edg lp'. if cost gg e \<ge> ggSoftInf gg then lp'
                           else addVarToRow (length (lpRows lp)) (getEdgUseVar gg (snd e, fst e) edg) 1
                                  (addVarToRow (length (lpRows lp)) (getEdgUseVar gg e edg) 1 lp'))
             (fromEdges cg) lp1)"
      by (intro ext_fold) (simp add: ext_addVarToRow2)
  qed
  then show ?thesis unfolding s ueStep_def Let_def split_def by (simp cong: if_cong)
qed

lemma ext_ueRows:
  "ext N (\<lambda>nm. kind nm = ''ue'') C lp (ueRows gg cg lp)"
proof -
  have "ext N (\<lambda>nm. kind nm = ''ue'') C (fst (lp, {}::gedge set))
          (fst (fold (\<lambda>n. fold (ueStep gg cg) (gnAdjList (ggNode gg n))) (ggNds gg) (lp, {})))"
    by (rule ext_fold_fst, rule ext_fold_fst, rule ext_ueStep)
  then show ?thesis by (simp add: ueRows_def)
qed

lemma ext_asStep:
  "ext N (\<lambda>nm. kind nm = ''as'') C lp (asStep gg cg n edg lp)"
proof -
  let ?K = "\<lambda>nm. kind nm = ''as''"
  let ?nm = "''as('' @ showDec (gnId (ggNode gg n)) @ '','' @ showPtr edg @ '')''"
  define row where "row = length (lpRows lp)"
  define F where "F = (\<lambda>lp1.
      fold (\<lambda>e. addVarToRow row (getEdgUseVar gg e edg) (if gnSink (ggNode gg n) then 2 else 1))
           (gnAdjListOut (ggNode gg n))
        (fold (\<lambda>e. addVarToRow row (getEdgUseVar gg e edg) (- 1)) (gnAdjListIn (ggNode gg n))
          (if gnSink (ggNode gg n)
           then addVarToRow row (getStatPosVar gg n (ceTo (cgEdge cg edg))) 1
                  (addVarToRow row (getStatPosVar gg n (ceFrom (cgEdge cg edg))) (- 2) lp1)
           else lp1)))"
  have eq: "asStep gg cg n edg lp = F (snd (addRow ?nm 0 UP lp))"
    unfolding asStep_def Let_def split_def F_def row_def by (simp cong: if_cong)
  have "ext N ?K C lp (F (snd (addRow ?nm 0 UP lp)))"
  proof (rule ext_addRow_then)
    show "kind ?nm = ''as''" by (simp add: kind_def)
  next
    fix lp1 assume N: "N \<le> length (lpRows lp)"
    then have r: "N \<le> row" by (simp add: row_def)
    have 1: "ext N ?K C lp1 (if gnSink (ggNode gg n)
           then addVarToRow row (getStatPosVar gg n (ceTo (cgEdge cg edg))) 1
                  (addVarToRow row (getStatPosVar gg n (ceFrom (cgEdge cg edg))) (- 2) lp1)
           else lp1)" (is "ext N ?K C lp1 ?l2")
      by (simp add: ext_addVarToRow2 [OF r])
    have 2: "ext N ?K C ?l2 (fold (\<lambda>e. addVarToRow row (getEdgUseVar gg e edg) (- 1)) (gnAdjListIn (ggNode gg n)) ?l2)"
      (is "ext N ?K C ?l2 ?l3")
      by (intro ext_fold ext_addVarToRow r)
    have 3: "ext N ?K C ?l3 (F lp1)"
      unfolding F_def by (intro ext_fold ext_addVarToRow r)
    show "ext N ?K C lp1 (F lp1)"
      using ext_trans [OF ext_trans [OF 1 2] 3] .
  qed
  then show ?thesis unfolding eq .
qed

lemma ext_asRows: "ext N (\<lambda>nm. kind nm = ''as'') C lp (asRows gg cg lp)"
  unfolding asRows_def
  by (intro ext_fold) (simp add: ext_fold ext_asStep)

lemma rowView_length [simp]: "length (rowView lp) = length (lpRows lp)"
  by (simp add: rowView_def)

lemma rowView_addRow:
  "rowView (snd (addRow nm rhs sense lp)) =
     rowView lp @ [(\<lparr>rowName = nm, rowRhs = rhs, rowSense = sense\<rparr>, [])]"
  by (simp add: rowView_def addRow_def)

lemma rowView_addColToRow:
  assumes "i < length (lpRows lp)"
  shows "rowView (addColToRow i c k lp) =
     (rowView lp)[i := (fst (rowView lp ! i), snd (rowView lp ! i) @ [(lpCols lp ! c, k)])]"
  using assms by (simp add: rowView_def addColToRow_def map_update)

lemma addColToRow_cols [simp]:
  "lpCols (addColToRow i c k lp) = lpCols lp" "lpVisible (addColToRow i c k lp) = lpVisible lp"
  "length (lpRows (addColToRow i c k lp)) = length (lpRows lp)"
  by (simp_all add: addColToRow_def)

lemma addRow_cols [simp]:
  "lpCols (snd (addRow nm rhs sense lp)) = lpCols lp"
  "lpVisible (snd (addRow nm rhs sense lp)) = lpVisible lp"
  "length (lpRows (snd (addRow nm rhs sense lp))) = Suc (length (lpRows lp))"
  by (simp_all add: addRow_def)

lemma addVarToRow_cols [simp]:
  "lpCols (addVarToRow i nm k lp) = lpCols lp" "lpVisible (addVarToRow i nm k lp) = lpVisible lp"
  "length (lpRows (addVarToRow i nm k lp)) = length (lpRows lp)"
  by (simp_all add: addVarToRow_def split: option.splits)

lemma varTerm_cong:
  "lpCols lp = lpCols lp0 \<Longrightarrow> lpVisible lp = lpVisible lp0 \<Longrightarrow> varTerm lp nm k = varTerm lp0 nm k"
  by (simp add: varTerm_def getVarByName_def split: option.splits)

lemma lastRowIs_addRow:
  "lastRowIs lp (rowView lp) \<lparr>rowName = nm, rowRhs = rhs, rowSense = sense\<rparr> []
     (snd (addRow nm rhs sense lp))"
  by (simp add: lastRowIs_def rowView_addRow)

lemma lastRowIs_addVarToRow:
  assumes "lastRowIs lp0 V r ts lp"
  shows "lastRowIs lp0 V r (ts @ varTerm lp0 nm k) (addVarToRow (length V) nm k lp)"
proof -
  have v: "rowView lp = V @ [(r, ts)]" and c: "lpCols lp = lpCols lp0" "lpVisible lp = lpVisible lp0"
    using assms by (simp_all add: lastRowIs_def)
  have len: "length V < length (lpRows lp)"
    using arg_cong [OF v, of length] by simp
  show ?thesis
  proof (cases "getVarByName lp nm")
    case None
    then show ?thesis using assms c
      by (simp add: addVarToRow_def varTerm_def getVarByName_def)
  next
    case (Some col)
    then have "varTerm lp0 nm k = [(lpCols lp ! col, k)]"
      using c by (simp add: varTerm_def getVarByName_def)
    then show ?thesis
      using Some c v len
      by (simp add: lastRowIs_def addVarToRow_def rowView_addColToRow)
  qed
qed

lemma lastRowIs_fold:
  assumes "lastRowIs lp0 V r ts lp"
  shows "lastRowIs lp0 V r (ts @ concat (map (\<lambda>e. varTerm lp0 (f e) k) es))
           (fold (\<lambda>e. addVarToRow (length V) (f e) k) es lp)"
  using assms
proof (induction es arbitrary: ts lp)
  case Nil
  then show ?case by simp
next
  case (Cons e es)
  have "lastRowIs lp0 V r ((ts @ varTerm lp0 (f e) k) @ concat (map (\<lambda>e. varTerm lp0 (f e) k) es))
           (fold (\<lambda>e. addVarToRow (length V) (f e) k) es (addVarToRow (length V) (f e) k lp))"
    by (rule Cons.IH) (rule lastRowIs_addVarToRow [OF Cons.prems])
  then show ?case by simp
qed

lemma asStep_view:
  "lastRowIs lp (rowView lp) (asRow gg n edg) (asTerms lp gg cg n edg) (asStep gg cg n edg lp)"
proof -
  let ?nm = "''as('' @ showDec (gnId (ggNode gg n)) @ '','' @ showPtr edg @ '')''"
  define row where "row = length (rowView lp)"
  define F where "F = (\<lambda>lp1.
      fold (\<lambda>e. addVarToRow row (getEdgUseVar gg e edg) (if gnSink (ggNode gg n) then 2 else 1))
           (gnAdjListOut (ggNode gg n))
        (fold (\<lambda>e. addVarToRow row (getEdgUseVar gg e edg) (- 1)) (gnAdjListIn (ggNode gg n))
          (if gnSink (ggNode gg n)
           then addVarToRow row (getStatPosVar gg n (ceTo (cgEdge cg edg))) 1
                  (addVarToRow row (getStatPosVar gg n (ceFrom (cgEdge cg edg))) (- 2) lp1)
           else lp1)))"
  have eq: "asStep gg cg n edg lp = F (snd (addRow ?nm 0 UP lp))"
    unfolding asStep_def Let_def split_def F_def row_def by (simp cong: if_cong)
  note 0 = lastRowIs_addRow [of lp ?nm 0 UP, folded asRow_def]
  have 1: "lastRowIs lp (rowView lp) (asRow gg n edg)
     (if gnSink (ggNode gg n)
      then varTerm lp (getStatPosVar gg n (ceFrom (cgEdge cg edg))) (- 2) @
           varTerm lp (getStatPosVar gg n (ceTo (cgEdge cg edg))) 1
      else [])
     (if gnSink (ggNode gg n)
           then addVarToRow row (getStatPosVar gg n (ceTo (cgEdge cg edg))) 1
                  (addVarToRow row (getStatPosVar gg n (ceFrom (cgEdge cg edg))) (- 2) (snd (addRow ?nm 0 UP lp)))
           else snd (addRow ?nm 0 UP lp))"
    using lastRowIs_addVarToRow [OF lastRowIs_addVarToRow [OF 0]] 0
    unfolding row_def by simp
  note 2 = lastRowIs_fold [OF 1, of "\<lambda>e. getEdgUseVar gg e edg" "- 1" "gnAdjListIn (ggNode gg n)"]
  note 3 = lastRowIs_fold [OF 2, of "\<lambda>e. getEdgUseVar gg e edg"
      "if gnSink (ggNode gg n) then 2 else 1" "gnAdjListOut (ggNode gg n)"]
  show ?thesis
    unfolding eq F_def asTerms_def using 3 unfolding row_def by simp
qed

lemma lastRowIs_appendsRows: "lastRowIs lp (rowView lp) r ts lp' \<Longrightarrow> appendsRows lp [(r, ts)] lp'"
  by (simp add: lastRowIs_def appendsRows_def)

lemma appendsRows_refl: "appendsRows lp [] lp"
  by (simp add: appendsRows_def)

lemma appendsRows_fold:
  assumes step: "\<And>x lp. appendsRows lp (G lp x) (f x lp)"
    and cong: "\<And>lp lp' x. lpCols lp' = lpCols lp \<Longrightarrow> lpVisible lp' = lpVisible lp \<Longrightarrow> G lp' x = G lp x"
  shows "appendsRows lp (concat (map (G lp) xs)) (fold f xs lp)"
proof (induction xs arbitrary: lp)
  case Nil
  then show ?case by (simp add: appendsRows_def)
next
  case (Cons x xs)
  have 1: "appendsRows lp (G lp x) (f x lp)" by (rule step)
  have 2: "appendsRows (f x lp) (concat (map (G (f x lp)) xs)) (fold f xs (f x lp))" by (rule Cons.IH)
  have "G (f x lp) = G lp"
    using 1 cong unfolding appendsRows_def by blast
  then show ?case using 1 2 by (simp add: appendsRows_def)
qed

lemma asTerms_cong:
  "lpCols lp' = lpCols lp \<Longrightarrow> lpVisible lp' = lpVisible lp \<Longrightarrow>
     asTerms lp' gg cg n edg = asTerms lp gg cg n edg"
  unfolding asTerms_def by (simp add: varTerm_cong [of lp' lp])

lemma concat_map_single: "concat (map (\<lambda>x. [f x]) xs) = map f xs"
  by (induction xs) simp_all

lemma asRows_view: "appendsRows lp (asView lp gg cg) (asRows gg cg lp)"
proof -
  have inner: "appendsRows lp (concat (map (\<lambda>edg. [(asRow gg n edg, asTerms lp gg cg n edg)]) (fromEdges cg)))
      (fold (asStep gg cg n) (fromEdges cg) lp)" for n lp
  proof (rule appendsRows_fold [where G = "\<lambda>lp edg. [(asRow gg n edg, asTerms lp gg cg n edg)]"])
    show "appendsRows lp [(asRow gg n x, asTerms lp gg cg n x)] (asStep gg cg n x lp)" for x lp
      by (rule lastRowIs_appendsRows) (rule asStep_view)
  next
    show "[(asRow gg n x, asTerms lp' gg cg n x)] = [(asRow gg n x, asTerms lp gg cg n x)]"
      if "lpCols lp' = lpCols lp" "lpVisible lp' = lpVisible lp" for lp lp' x
      using asTerms_cong [OF that] by simp
  qed
  have step: "appendsRows lp (if nonInfDeg gg n = 0 then []
                       else map (\<lambda>edg. (asRow gg n edg, asTerms lp gg cg n edg)) (fromEdges cg))
      (if nonInfDeg gg n = 0 then lp else fold (asStep gg cg n) (fromEdges cg) lp)" for n lp
    using inner [where n = n and lp = lp] unfolding concat_map_single by (simp add: appendsRows_refl)
  show ?thesis
    unfolding asRows_def asView_def
  proof (rule appendsRows_fold [where G = "\<lambda>lp n. if nonInfDeg gg n = 0 then []
                       else map (\<lambda>edg. (asRow gg n edg, asTerms lp gg cg n edg)) (fromEdges cg)"])
    show "appendsRows lp (if nonInfDeg gg x = 0 then []
                       else map (\<lambda>edg. (asRow gg x edg, asTerms lp gg cg x edg)) (fromEdges cg))
      (if nonInfDeg gg x = 0 then lp else fold (asStep gg cg x) (fromEdges cg) lp)" for x lp
      by (rule step)
  next
    show "(if nonInfDeg gg x = 0 then []
                       else map (\<lambda>edg. (asRow gg x edg, asTerms lp' gg cg x edg)) (fromEdges cg))
       = (if nonInfDeg gg x = 0 then []
                       else map (\<lambda>edg. (asRow gg x edg, asTerms lp gg cg x edg)) (fromEdges cg))"
      if "lpCols lp' = lpCols lp" "lpVisible lp' = lpVisible lp" for lp lp' x
      using asTerms_cong [OF that] by simp
  qed
qed

lemma sameGrid_refl [simp]: "sameGrid gg gg"
  unfolding sameGrid_def by (rule exI [of _ "ggEdgePL gg"]) simp

lemma sameGrid_updEdge:
  assumes "sameGrid gg gg'"
  shows "sameGrid gg (updEdge f e gg')"
proof -
  obtain X where X: "gg' = gg\<lparr>ggEdgePL := X\<rparr>" using assms unfolding sameGrid_def by blast
  show ?thesis
    unfolding sameGrid_def X updEdge_def
    by (rule exI [of _ "X(e := f (X e))"]) simp
qed

lemma sameGrid_fold:
  "(\<And>x g. sameGrid gg g \<Longrightarrow> sameGrid gg (f x g)) \<Longrightarrow> sameGrid gg gg' \<Longrightarrow> sameGrid gg (fold f xs gg')"
  by (induction xs arbitrary: gg') simp_all

lemma sameGrid_openSink:
  assumes "sameGrid gg gg'"
  shows "sameGrid gg (openSinkTo n c (openSinkFr n c gg'))"
  unfolding openSinkTo_def openSinkFr_def setCost_def
  by (intro sameGrid_fold sameGrid_updEdge assms)

lemma sameGrid_fields:
  assumes "sameGrid gg gg'"
  shows "ggNode gg' = ggNode gg" "ggNds gg' = ggNds gg" "ggCellSize gg' = ggCellSize gg"
    "hgBendCosts gg' = hgBendCosts gg" "hgC gg' = hgC gg" "ggSoftInf gg' = ggSoftInf gg"
    "ggInf gg' = ggInf gg" "ggCosts gg' = ggCosts gg" "ggCrossEdgPairs gg' = ggCrossEdgPairs gg"
proof -
  obtain X where X: "gg' = gg\<lparr>ggEdgePL := X\<rparr>" using assms unfolding sameGrid_def by blast
  show "ggNode gg' = ggNode gg" "ggNds gg' = ggNds gg" "ggCellSize gg' = ggCellSize gg"
    "hgBendCosts gg' = hgBendCosts gg" "hgC gg' = hgC gg" "ggSoftInf gg' = ggSoftInf gg"
    "ggInf gg' = ggInf gg" "ggCosts gg' = ggCosts gg" "ggCrossEdgPairs gg' = ggCrossEdgPairs gg"
    unfolding X by simp_all
qed

lemma sameGrid_derived:
  assumes "sameGrid gg gg'"
  shows "isCand gg' cg mgd nd n = isCand gg cg mgd nd n"
    "spCol gg' cg nd n = spCol gg cg nd n"
    "getStatPosVar gg' n nd = getStatPosVar gg n nd"
    "getEdgUseVar gg' e edg = getEdgUseVar gg e edg"
    "gridDeg gg' n = gridDeg gg n"
  unfolding isCand_def spCol_def getStatPosVar_def getEdgUseVar_def gridDeg_def ndMovePen_def
    sameGrid_fields [OF assms] by simp_all

lemma wfLP_addCol_term:
  assumes "wfLP lp" "row < length (lpRows lp)"
  shows "wfLP (addColToRow row (length (lpCols lp)) k (snd (addColBnd nm ty obj b lp)))"
proof -
  have "ext 0 (\<lambda>nm. True) (\<lambda>c. True) lp (snd (addColBnd nm ty obj b lp))"
    by (rule ext_addColBnd) simp
  moreover have "ext 0 (\<lambda>nm. True) (\<lambda>c. True) (snd (addColBnd nm ty obj b lp))
     (addColToRow row (length (lpCols lp)) k (snd (addColBnd nm ty obj b lp)))"
    by (rule ext_addColToRow) (simp add: addColBnd_def)
  ultimately have "ext 0 (\<lambda>nm. True) (\<lambda>c. True) lp
     (addColToRow row (length (lpCols lp)) k (snd (addColBnd nm ty obj b lp)))"
    by (rule ext_trans)
  then show ?thesis using assms(1) unfolding ext_def by simp
qed

lemma rowView_addColBnd:
  assumes "wfLP lp"
  shows "rowView (snd (addColBnd nm ty obj b lp)) = rowView lp"
  using rowView_append_cols [OF assms, of "snd (addColBnd nm ty obj b lp)" "[]"
      "[\<lparr>colName = nm, colType = ty, colObj = obj, colBnds = b\<rparr>]"]
  by (simp add: addColBnd_def)

lemma fillsRow_addCol:
  assumes "fillsRow lp0 V r ts cs lp"
  shows "fillsRow lp0 V r (ts @ [(\<lparr>colName = nm, colType = ty, colObj = obj, colBnds = b\<rparr>, k)])
           (cs @ [\<lparr>colName = nm, colType = ty, colObj = obj, colBnds = b\<rparr>])
           (addColToRow (length V) (length (lpCols lp)) k (snd (addColBnd nm ty obj b lp)))"
proof -
  have wf: "wfLP lp" and v: "rowView lp = V @ [(r, ts)]" and c: "lpCols lp = lpCols lp0 @ cs"
    and vis: "lpVisible lp = lpVisible lp0"
    using assms by (simp_all add: fillsRow_def)
  have len: "length V < length (lpRows lp)"
    using arg_cong [OF v, of length] by simp
  let ?lp1 = "snd (addColBnd nm ty obj b lp)"
  have v1: "rowView ?lp1 = V @ [(r, ts)]" using rowView_addColBnd [OF wf] v by simp
  have l1: "length V < length (lpRows ?lp1)" using len by (simp add: addColBnd_def)
  have c1: "lpCols ?lp1 = lpCols lp @ [\<lparr>colName = nm, colType = ty, colObj = obj, colBnds = b\<rparr>]"
    "lpVisible ?lp1 = lpVisible lp"
    by (simp_all add: addColBnd_def)
  show ?thesis
    unfolding fillsRow_def
    using wfLP_addCol_term [OF wf len] rowView_addColToRow [OF l1] v1 c1 c vis
    by simp
qed

lemma statPosStep_fills:
  assumes f: "fillsRow lp0 V r ts cs lp" and g: "sameGrid gg gg'"
  shows "fillsRow lp0 V r
           (ts @ (if isCand gg cg mgd nd n then [(spCol gg cg nd n, 1)] else []))
           (cs @ (if isCand gg cg mgd nd n then [spCol gg cg nd n] else []))
           (fst (statPosStep cg mgd nd (length V) n (lp, gg', cands))) \<and>
         sameGrid gg (fst (snd (statPosStep cg mgd nd (length V) n (lp, gg', cands))))"
proof (cases "isCand gg cg mgd nd n")
  case False
  then have "statPosStep cg mgd nd (length V) n (lp, gg', cands) = (lp, gg', cands)"
    by (auto simp add: statPosStep_def isCand_def sameGrid_fields [OF g] gridDeg_def Let_def not_le)
  then show ?thesis using f g False by simp
next
  case True
  let ?gg1 = "openSinkTo n 0 (openSinkFr n 0 gg')"
  have g1: "sameGrid gg ?gg1" by (rule sameGrid_openSink [OF g])
  have "statPosStep cg mgd nd (length V) n (lp, gg', cands) =
         (addColToRow (length V) (length (lpCols lp)) 1
            (snd (addColBnd (getStatPosVar gg n nd) BIN (ndMovePen gg cg nd n) None lp)),
          ?gg1, cands(nd := insert n (cands nd)))"
    using True sameGrid_derived(3) [OF g1, of n nd]
    by (simp add: statPosStep_def isCand_def sameGrid_fields [OF g] gridDeg_def Let_def split_def
      addCol_def ndMovePen_def sameGrid_fields [OF g1] not_le)
  then show ?thesis
    using fillsRow_addCol [OF f, of "getStatPosVar gg n nd" BIN "ndMovePen gg cg nd n" None 1]
      g1 True
    by (simp add: spCol_def)
qed

lemma statPos_fold:
  assumes "fillsRow lp0 V r ts cs lp" and "sameGrid gg gg'"
  shows "fillsRow lp0 V r
           (ts @ map (\<lambda>n. (spCol gg cg nd n, 1)) (filter (isCand gg cg mgd nd) ns))
           (cs @ map (spCol gg cg nd) (filter (isCand gg cg mgd nd) ns))
           (fst (fold (statPosStep cg mgd nd (length V)) ns (lp, gg', cands))) \<and>
         sameGrid gg (fst (snd (fold (statPosStep cg mgd nd (length V)) ns (lp, gg', cands))))"
  using assms
proof (induction ns arbitrary: ts cs lp gg' cands)
  case Nil
  then show ?case by simp
next
  case (Cons n ns)
  obtain lp1 gg1 cands1 where st: "statPosStep cg mgd nd (length V) n (lp, gg', cands) = (lp1, gg1, cands1)"
    by (metis prod_cases3)
  note s = statPosStep_fills [OF Cons.prems, of cg mgd nd n cands, unfolded st, simplified]
  note ih = Cons.IH [OF s [THEN conjunct1] s [THEN conjunct2], of cands1]
  show ?case
    using ih unfolding fold_simps st by (simp split: if_splits)
qed

lemma wfLP_addRow: "wfLP lp \<Longrightarrow> wfLP (snd (addRow nm rhs sense lp))"
  unfolding wfLP_def addRow_def by auto

lemma fillsRow_addRow:
  "wfLP lp \<Longrightarrow> fillsRow lp (rowView lp) \<lparr>rowName = nm, rowRhs = rhs, rowSense = sense\<rparr> [] []
     (snd (addRow nm rhs sense lp))"
  by (simp add: fillsRow_def wfLP_addRow rowView_addRow)

lemma fillsRow_builds: "fillsRow lp (rowView lp) r ts cs lp' \<Longrightarrow> builds lp [(r, ts)] cs lp'"
  by (simp add: fillsRow_def builds_def)

lemma builds_refl: "wfLP lp \<Longrightarrow> builds lp [] [] lp"
  by (simp add: builds_def)

lemma builds_trans:
  "builds lp V cs lp1 \<Longrightarrow> builds lp1 V' cs' lp2 \<Longrightarrow> builds lp (V @ V') (cs @ cs') lp2"
  by (simp add: builds_def)

lemma oneAssStep_builds:
  assumes wf: "wfLP lp" and g: "sameGrid gg gg'"
  shows "builds lp
           (if combDeg cg nd = 0 then []
            else [(oneAssRow nd, map (\<lambda>n. (spCol gg cg nd n, 1)) (candsOf gg cg mgd nd))])
           (if combDeg cg nd = 0 then [] else map (spCol gg cg nd) (candsOf gg cg mgd nd))
           (fst (oneAssStep cg mgd nd (lp, gg', cands))) \<and>
         sameGrid gg (fst (snd (oneAssStep cg mgd nd (lp, gg', cands))))"
proof (cases "combDeg cg nd = 0")
  case True
  then show ?thesis using wf g by (simp add: oneAssStep_def builds_refl)
next
  case False
  let ?nm = "''oneass('' @ showPtr nd @ '')''"
  have eq: "oneAssStep cg mgd nd (lp, gg', cands) =
      fold (statPosStep cg mgd nd (length (rowView lp))) (ggNds gg) (snd (addRow ?nm 1 FIX lp), gg', cands)"
    using False unfolding oneAssStep_def Let_def split_def by (simp add: sameGrid_fields [OF g])
  note f0 = fillsRow_addRow [OF wf, of ?nm 1 FIX, folded oneAssRow_def]
  note f1 = statPos_fold [OF f0 g, of cg nd mgd "ggNds gg" cands]
  show ?thesis
    unfolding eq using f1 False
    by (simp add: candsOf_def fillsRow_builds)
qed

lemma oneAss_fold:
  assumes "wfLP lp" and "sameGrid gg gg'"
  shows "builds lp
           (map (\<lambda>nd. (oneAssRow nd, map (\<lambda>n. (spCol gg cg nd n, 1)) (candsOf gg cg mgd nd)))
              (filter (\<lambda>nd. combDeg cg nd \<noteq> 0) nds))
           (concat (map (\<lambda>nd. map (spCol gg cg nd) (candsOf gg cg mgd nd))
              (filter (\<lambda>nd. combDeg cg nd \<noteq> 0) nds)))
           (fst (fold (oneAssStep cg mgd) nds (lp, gg', cands))) \<and>
         sameGrid gg (fst (snd (fold (oneAssStep cg mgd) nds (lp, gg', cands))))"
  using assms
proof (induction nds arbitrary: lp gg' cands)
  case Nil
  then show ?case by (simp add: builds_refl)
next
  case (Cons nd nds)
  obtain lp1 gg1 cands1 where st: "oneAssStep cg mgd nd (lp, gg', cands) = (lp1, gg1, cands1)"
    by (metis prod_cases3)
  note s = oneAssStep_builds [OF Cons.prems, of cg nd mgd cands, unfolded st, simplified]
  have wf1: "wfLP lp1" using s by (simp add: builds_def)
  note ih = Cons.IH [OF wf1 s [THEN conjunct2], of cands1]
  show ?case
    using builds_trans [OF s [THEN conjunct1] ih [THEN conjunct1]] ih [THEN conjunct2]
    unfolding fold_simps st by (simp split: if_splits)
qed

lemma ext_ssStep: "ext N (\<lambda>nm. kind nm = ''ss'') C lp (ssStep gg cg cands n e lp)"
proof -
  let ?K = "\<lambda>nm. kind nm = ''ss''"
  let ?nm = "''ss('' @ showDec (gnId (ggNode gg n)) @ '','' @ showPtr e @ '')''"
  define row where "row = length (lpRows lp)"
  define G where "G = (\<lambda>lp1.
     (if n \<notin> cands (ceFrom (cgEdge cg e)) \<and> n \<notin> cands (ceTo (cgEdge cg e)) then lp1
      else (if n \<in> cands (ceFrom (cgEdge cg e))
            then addVarToRow row (getStatPosVar gg n (ceFrom (cgEdge cg e))) (- 1)
            else (\<lambda>l. l))
             (if n \<in> cands (ceTo (cgEdge cg e))
              then addVarToRow row (getStatPosVar gg n (ceTo (cgEdge cg e))) (- 1) lp1
              else lp1)))"
  define F where "F = (\<lambda>lp1.
      fold (\<lambda>portNd lp. addVarToRow row (getEdgUseVar gg (n, portNd) e) 1
                             (addVarToRow row (getEdgUseVar gg (portNd, n) e) 1 lp))
           (portsOf gg n) (G lp1))"
  have eq: "ssStep gg cg cands n e lp = F (snd (addRow ?nm 0 FIX lp))"
    unfolding ssStep_def Let_def split_def F_def G_def row_def by (simp cong: if_cong)
  have "ext N ?K C lp (F (snd (addRow ?nm 0 FIX lp)))"
  proof (rule ext_addRow_then)
    show "kind ?nm = ''ss''" by (simp add: kind_def)
  next
    fix lp1 assume N: "N \<le> length (lpRows lp)"
    then have r: "N \<le> row" by (simp add: row_def)
    have 1: "ext N ?K C lp1 (G lp1)"
      unfolding G_def
      by (auto intro: ext_addVarToRow [OF r] ext_addVarToRow2 [OF r])
    have 2: "ext N ?K C (G lp1) (F lp1)"
      unfolding F_def by (intro ext_fold ext_addVarToRow2 r)
    show "ext N ?K C lp1 (F lp1)"
      using ext_trans [OF 1 2] .
  qed
  then show ?thesis unfolding eq .
qed

lemma ext_ssRows: "ext N (\<lambda>nm. kind nm = ''ss'') C lp (ssRows gg cg cands lp)"
  unfolding ssRows_def
  by (intro ext_fold) (simp add: ext_fold ext_ssStep)

lemma ext_iuStep: "ext N (\<lambda>nm. kind nm = ''iu'') C lp (iuStep gg cg n lp)"
proof (cases "gnSink (ggNode gg n)")
  case False
  then show ?thesis by (simp add: iuStep_def)
next
  case True
  let ?K = "\<lambda>nm. kind nm = ''iu''"
  let ?nm = "''iu('' @ showDec (gnId (ggNode gg n)) @ '')''"
  define row where "row = length (lpRows lp)"
  define F where "F = (\<lambda>lp1.
      fold (\<lambda>innerE. fold (\<lambda>edg. addVarToRow row (getEdgUseVar gg innerE edg) 1) (fromEdges cg))
           (turnEdges gg n)
        (fold (\<lambda>nd. addVarToRow row (getStatPosVar gg n nd) 1) (cgNds cg) lp1))"
  have eq: "iuStep gg cg n lp = F (snd (addRow ?nm 1 UP lp))"
    using True unfolding iuStep_def Let_def split_def F_def row_def by simp
  have "ext N ?K C lp (F (snd (addRow ?nm 1 UP lp)))"
  proof (rule ext_addRow_then)
    show "kind ?nm = ''iu''" by (simp add: kind_def)
  next
    fix lp1 assume N: "N \<le> length (lpRows lp)"
    then have r: "N \<le> row" by (simp add: row_def)
    have 1: "ext N ?K C lp1 (fold (\<lambda>nd. addVarToRow row (getStatPosVar gg n nd) 1) (cgNds cg) lp1)"
      (is "ext N ?K C lp1 ?l2")
      by (intro ext_fold ext_addVarToRow r)
    have 2: "ext N ?K C ?l2 (F lp1)"
      unfolding F_def by (intro ext_fold ext_addVarToRow r)
    show "ext N ?K C lp1 (F lp1)"
      using ext_trans [OF 1 2] .
  qed
  then show ?thesis unfolding eq .
qed

lemma ext_iuRows: "ext N (\<lambda>nm. kind nm = ''iu'') C lp (iuRows gg cg lp)"
  unfolding iuRows_def by (intro ext_fold ext_iuStep)

lemma ext_ncStep: "ext N crossName C (snd s) (snd (ncStep gg cg p s))"
proof -
  obtain rowId lp where s: "s = (rowId, lp)" by (cases s)
  let ?K = crossName
  let ?nm = "''nc('' @ showDec rowId @ '')''"
  define row where "row = length (lpRows lp)"
  define F where "F = (\<lambda>lp1.
         fold (\<lambda>edg lp.
                 addVarToRow row (getEdgUseVar gg (snd (snd p)) edg) 1
                   (addVarToRow row (getEdgUseVar gg (fst (snd p)) edg) 1
                     (addVarToRow row (getEdgUseVar gg (snd (fst p)) edg) 1
                       (addVarToRow row (getEdgUseVar gg (fst (fst p)) edg) 1 lp))))
           (fromEdges cg) lp1)"
  have eq: "snd (ncStep gg cg p (rowId, lp)) = F (snd (addRow ?nm 1 UP lp))"
    unfolding ncStep_def Let_def split_def F_def row_def by simp
  have "ext N ?K C lp (F (snd (addRow ?nm 1 UP lp)))"
  proof (rule ext_addRow_then)
    show "crossName ?nm" by (simp add: crossName_def kind_def)
  next
    fix lp1 assume N: "N \<le> length (lpRows lp)"
    then have r: "N \<le> row" by (simp add: row_def)
    show "ext N ?K C lp1 (F lp1)"
      unfolding F_def
      by (intro ext_fold ext_trans [OF ext_addVarToRow2 [OF r] ext_addVarToRow2 [OF r]])
  qed
  then show ?thesis unfolding eq s by simp
qed

lemma ext_ncRows: "ext N crossName C lp (ncRows gg cg lp)"
proof -
  have "ext N crossName C (snd (0::nat, lp))
          (snd (fold (ncStep gg cg) (ggCrossEdgPairs gg) (0, lp)))"
    by (rule ext_fold_snd, rule ext_ncStep)
  then show ?thesis by (simp add: ncRows_def)
qed

lemma ext_dirSinkStep:
  assumes "N \<le> row"
  shows "ext N K C lp (dirSinkStep gg cg nd edg row n lp)"
  unfolding dirSinkStep_def
  by (auto intro!: ext_fold ext_addVarToRow [OF assms] split: option.splits)

lemma ext_dirStep: "ext N (\<lambda>nm. kind nm = ''dc'') isDirCol lp (dirStep gg cg nd edg lp)"
proof -
  let ?K = "\<lambda>nm. kind nm = ''dc''"
  let ?nm = "''dc('' @ showPtr nd @ '','' @ showPtr edg @ '')''"
  let ?lp1 = "snd (addColBnd (dirName nd edg) INT' 0 (Some (0, real (maxDeg - 1))) lp)"
  let ?lp2 = "snd (addRow ?nm 0 FIX ?lp1)"
  define row where "row = length (lpRows lp)"
  define col where "col = length (lpCols lp)"
  let ?lp3 = "addColToRow row col (- 1) ?lp2"
  have eq: "dirStep gg cg nd edg lp = fold (dirSinkStep gg cg nd edg row) (ggNds gg) ?lp3"
    unfolding dirStep_def Let_def split_def row_def col_def by (simp add: addColBnd_def)
  have 0: "ext N ?K isDirCol lp ?lp1"
    by (rule ext_addColBnd) (simp add: isDirCol_def dirCol_def dirName_def kind_def maxDeg_def)
  have 1: "ext N ?K isDirCol ?lp1 ?lp2"
    by (rule ext_addRow) (simp add: kind_def)
  have 2: "ext N ?K isDirCol ?lp2 (fold (dirSinkStep gg cg nd edg row) (ggNds gg) ?lp3)"
    if N: "N \<le> length (lpRows lp)"
  proof -
    have r: "N \<le> row" using N by (simp add: row_def)
    have a: "ext N ?K isDirCol ?lp2 ?lp3"
      by (rule ext_addColToRow) (simp add: r col_def addColBnd_def)
    have b: "ext N ?K isDirCol ?lp3 (fold (dirSinkStep gg cg nd edg row) (ggNds gg) ?lp3)"
      by (intro ext_fold ext_dirSinkStep r)
    show ?thesis using ext_trans [OF a b] .
  qed
  show ?thesis
    unfolding eq
    by (rule ext_seq [OF ext_trans [OF 0 1]]) (rule 2)
qed

lemma ext_dirVars: "ext N (\<lambda>nm. kind nm = ''dc'') isDirCol lp (dirVars gg cg lp)"
  unfolding dirVars_def
  by (intro ext_fold) (simp add: ext_fold ext_dirStep)

lemma wfLP_addColToRow:
  assumes "wfLP lp" "c < length (lpCols lp)"
  shows "wfLP (addColToRow r c k lp)"
proof -
  have "ext 0 (\<lambda>nm. True) (\<lambda>c. True) lp (addColToRow r c k lp)"
    by (rule ext_addColToRow) (simp add: assms)
  then show ?thesis using assms(1) unfolding ext_def by simp
qed

lemma wfLP_update: "wfLP lp \<Longrightarrow> wfLP (update lp)"
  by (simp add: wfLP_def update_def)

lemma rowView_update [simp]: "rowView (update lp) = rowView lp"
  by (simp add: rowView_def update_def)

lemma update_cols [simp]: "lpCols (update lp) = lpCols lp" "lpVisible (update lp) = length (lpCols lp)"
  "lpRows (update lp) = lpRows lp"
  by (simp_all add: update_def)

lemma found_cong:
  "lpCols lp' = lpCols lp \<Longrightarrow> lpVisible lp' = lpVisible lp \<Longrightarrow> found lp' nm c = found lp nm c"
  by (simp add: found_def getVarByName_def)

lemma found_mono:
  assumes "found lp nm c" "wfLP lp" "lpCols lp' = lpCols lp @ nc" "lpVisible lp \<le> lpVisible lp'"
  shows "found lp' nm c"
proof -
  obtain i where i: "getVarByName lp nm = Some i" "lpCols lp ! i = c"
    using assms(1) unfolding found_def by blast
  have "getVarByName lp' nm = Some i" by (rule getVarByName_mono [OF i(1) assms(3,4,2)])
  moreover have "lpCols lp' ! i = c"
    using getVarByName_Some [OF i(1)] i(2) by (simp add: assms(3) nth_append)
  ultimately show ?thesis unfolding found_def by blast
qed

lemma rowView_addColToRow_last:
  assumes "rowView lp = V @ [(r, ts)]" "i = length V"
  shows "rowView (addColToRow i c k lp) = V @ [(r, ts @ [(lpCols lp ! c, k)])]"
proof -
  have "i < length (lpRows lp)"
    using arg_cong [OF assms(1), of length] assms(2) by simp
  then show ?thesis
    using rowView_addColToRow [of i lp c k] assms by simp
qed

lemma ocStep_ok:
  assumes wf: "wfLP lp"
    and ne: "prevEdge cg nd i \<noteq> cnOrder (cgNode cg nd) ! i"
    and fa: "found lp (dirName nd (prevEdge cg nd i)) (dirCol (dirName nd (prevEdge cg nd i)))"
    and fb: "found lp (dirName nd (cnOrder (cgNode cg nd) ! i)) (dirCol (dirName nd (cnOrder (cgNode cg nd) ! i)))"
    and fv: "found lp (vulnName nd i) (vulnCol nd i)"
  shows "\<exists>lp'. ocStep cg nd i lp = Inr lp' \<and> wfLP lp' \<and> appendsRows lp [(ocRow nd i, ocTerms cg nd i)] lp'"
proof -
  let ?A = "prevEdge cg nd i" and ?B = "cnOrder (cgNode cg nd) ! i"
  obtain ca where ca: "getVarByName lp (dirName nd ?A) = Some ca" "lpCols lp ! ca = dirCol (dirName nd ?A)"
    using fa unfolding found_def by blast
  obtain cb where cb: "getVarByName lp (dirName nd ?B) = Some cb" "lpCols lp ! cb = dirCol (dirName nd ?B)"
    using fb unfolding found_def by blast
  obtain cv where cv: "getVarByName lp (vulnName nd i) = Some cv" "lpCols lp ! cv = vulnCol nd i"
    using fv unfolding found_def by blast
  let ?nm = "''oc('' @ showPtr nd @ '','' @ showDec i @ '')''"
  let ?lp1 = "snd (addRow ?nm 1 LO lp)"
  define row where "row = length (lpRows lp)"
  let ?lp2 = "addColToRow row cb 1 ?lp1"
  let ?lp3 = "addColToRow row ca (- 1) ?lp2"
  let ?lp4 = "addColToRow row cv (real maxDeg) ?lp3"
  have cv1: "getVarByName ?lp1 (vulnName nd i) = Some cv"
    using cv(1) by (simp add: getVarByName_def)
  have res: "ocStep cg nd i lp = Inr ?lp4"
    using ne ca(1) cb(1) cv1
    unfolding ocStep_def prevEdge_def Let_def split_def row_def by simp
  have lens: "ca < length (lpCols lp)" "cb < length (lpCols lp)" "cv < length (lpCols lp)"
    using getVarByName_Some [OF ca(1)] getVarByName_Some [OF cb(1)] getVarByName_Some [OF cv(1)]
    by simp_all
  have wf4: "wfLP ?lp4"
    by (intro wfLP_addColToRow wfLP_addRow wf) (simp_all add: lens)
  have v1: "rowView ?lp1 = rowView lp @ [(ocRow nd i, [])]"
    by (simp add: rowView_addRow ocRow_def)
  have rl: "row = length (rowView lp)" by (simp add: row_def)
  have v2: "rowView ?lp2 = rowView lp @ [(ocRow nd i, [(dirCol (dirName nd ?B), 1)])]"
    using rowView_addColToRow_last [OF v1 rl, of cb 1] cb(2) by simp
  have v3: "rowView ?lp3 = rowView lp @ [(ocRow nd i, [(dirCol (dirName nd ?B), 1), (dirCol (dirName nd ?A), - 1)])]"
    using rowView_addColToRow_last [OF v2 rl, of ca "- 1"] ca(2) by simp
  have v4: "rowView ?lp4 = rowView lp @ [(ocRow nd i, ocTerms cg nd i)]"
    using rowView_addColToRow_last [OF v3 rl, of cv "real maxDeg"] cv(2)
    by (simp add: ocTerms_def maxDeg_def)
  show ?thesis
    using res wf4 v4 by (simp add: appendsRows_def)
qed

lemma foldE_appends:
  assumes step: "\<And>x lp. x \<in> set xs \<Longrightarrow> wfLP lp \<Longrightarrow> lpCols lp = lpCols lp0 \<Longrightarrow>
       lpVisible lp = lpVisible lp0 \<Longrightarrow>
       \<exists>lp'. f x lp = Inr lp' \<and> wfLP lp' \<and> appendsRows lp [G x] lp'"
    and "wfLP lp" "lpCols lp = lpCols lp0" "lpVisible lp = lpVisible lp0"
  shows "\<exists>lp'. foldE f xs lp = Inr lp' \<and> wfLP lp' \<and> appendsRows lp (map G xs) lp'"
  using assms
proof (induction xs arbitrary: lp)
  case Nil
  then show ?case by (simp add: appendsRows_def)
next
  case (Cons x xs)
  obtain lp1 where 1: "f x lp = Inr lp1" "wfLP lp1" "appendsRows lp [G x] lp1"
    using Cons.prems(1) [OF _ Cons.prems(2,3,4)] by auto
  have c1: "lpCols lp1 = lpCols lp0" "lpVisible lp1 = lpVisible lp0"
    using 1(3) Cons.prems(3,4) by (simp_all add: appendsRows_def)
  obtain lp2 where 2: "foldE f xs lp1 = Inr lp2" "wfLP lp2" "appendsRows lp1 (map G xs) lp2"
    using Cons.IH [OF _ 1(2) c1] Cons.prems(1) by auto
  show ?case
    using 1 2 by (simp add: appendsRows_def)
qed

lemma getVarByName_exists:
  assumes "lpVisible lp = length (lpCols lp)" "c \<in> set (lpCols lp)" "colName c = nm"
  shows "\<exists>i. getVarByName lp nm = Some i"
proof -
  have "findIdx (\<lambda>c. colName c = nm) (lpCols lp) \<noteq> None"
    using assms(2,3) by (auto simp add: findIdx_None)
  then show ?thesis unfolding getVarByName_def assms(1) by auto
qed

lemma vuln_fold:
  assumes "fillsRow lp0 V r ts cs lp"
  shows "fillsRow lp0 V r (ts @ map (\<lambda>i. (vulnCol nd i, 1)) is) (cs @ map (vulnCol nd) is)
           (fold (\<lambda>i lp. let (col, lp') = addCol (vulnName nd i) BIN 0 lp
                          in addColToRow (length V) col 1 lp') is lp)"
  using assms
proof (induction "is" arbitrary: ts cs lp)
  case Nil
  then show ?case by simp
next
  case (Cons i "is")
  note s = fillsRow_addCol [OF Cons.prems, of "vulnName nd i" BIN 0 None 1, folded vulnCol_def]
  show ?case
    using Cons.IH [OF s] by (simp add: Let_def split_def addCol_def)
qed

lemma prevEdge_ne:
  assumes "distinct (cnOrder (cgNode cg nd))" "2 \<le> length (cnOrder (cgNode cg nd))"
    "i < length (cnOrder (cgNode cg nd))"
  shows "prevEdge cg nd i \<noteq> cnOrder (cgNode cg nd) ! i"
proof (cases "i = 0")
  case True
  have "last (cnOrder (cgNode cg nd)) = cnOrder (cgNode cg nd) ! (length (cnOrder (cgNode cg nd)) - 1)"
    using assms(2) by (intro last_conv_nth) auto
  then show ?thesis
    using True assms by (simp add: prevEdge_def nth_eq_iff_index_eq)
next
  case False
  then show ?thesis
    using assms by (simp add: prevEdge_def nth_eq_iff_index_eq)
qed

lemma prevEdge_mem:
  assumes "i < length (cnOrder (cgNode cg nd))"
  shows "prevEdge cg nd i \<in> set (cnOrder (cgNode cg nd))"
  using assms unfolding prevEdge_def by (cases "i = 0") (auto intro: last_in_set nth_mem)

lemma orderStep_ok:
  assumes wf: "wfLP lp" and vi: "vulnInv lp"
    and deg: "3 \<le> combDeg cg nd"
    and len: "length (cnOrder (cgNode cg nd)) = combDeg cg nd"
    and dist: "distinct (cnOrder (cgNode cg nd))"
    and dirs: "\<forall>e\<in>set (cnOrder (cgNode cg nd)). found lp (dirName nd e) (dirCol (dirName nd e))"
  shows "\<exists>lp'. orderStep cg nd lp = Inr lp' \<and> wfLP lp' \<and> vulnInv lp' \<and>
           rowView lp' = rowView lp @ orderViewOf cg nd \<and>
           lpCols lp' = lpCols lp @ map (vulnCol nd) [0..<combDeg cg nd] \<and>
           lpVisible lp' = length (lpCols lp')"
proof -
  let ?order = "cnOrder (cgNode cg nd)"
  let ?nm = "''vc('' @ showPtr nd @ '')''"
  define lp2 where "lp2 = fold (\<lambda>i l. let (col, lp') = addCol (vulnName nd i) BIN 0 l
                          in addColToRow (length (rowView lp)) col 1 lp') [0..<combDeg cg nd]
                          (snd (addRow ?nm 1 FIX lp))"
  define lp3 where "lp3 = update lp2"
  have eq: "orderStep cg nd lp = foldE (ocStep cg nd) [0..<length ?order] lp3"
    using deg len unfolding orderStep_def Let_def split_def lp3_def lp2_def by simp
  note f0 = fillsRow_addRow [OF wf, of ?nm 1 FIX, folded vcRow_def]
  note f2 = vuln_fold [OF f0, of nd "[0..<combDeg cg nd]", folded lp2_def]
  have wf3: "wfLP lp3" using f2 by (simp add: fillsRow_def wfLP_update lp3_def)
  have v3: "rowView lp3 = rowView lp @ [(vcRow nd, map (\<lambda>i. (vulnCol nd i, 1)) [0..<combDeg cg nd])]"
    using f2 by (simp add: fillsRow_def lp3_def)
  have c3: "lpCols lp3 = lpCols lp @ map (vulnCol nd) [0..<combDeg cg nd]"
    using f2 by (simp add: fillsRow_def lp3_def)
  have vis3: "lpVisible lp3 = length (lpCols lp3)" by (simp add: lp3_def)
  have vi3: "vulnInv lp3"
    using vi unfolding vulnInv_def c3 by (auto simp add: vulnCol_def)
  have le: "lpVisible lp \<le> lpVisible lp3"
    using wf unfolding vis3 c3 wfLP_def by simp
  have dirs3: "found lp3 (dirName nd e) (dirCol (dirName nd e))" if "e \<in> set ?order" for e
    using found_mono [OF _ wf c3 le] dirs that by blast
  have vuln3: "found lp3 (vulnName nd i) (vulnCol nd i)" if "i < combDeg cg nd" for i
  proof -
    have m: "vulnCol nd i \<in> set (lpCols lp3)" using that unfolding c3 by simp
    obtain j where j: "getVarByName lp3 (vulnName nd i) = Some j"
      using getVarByName_exists [OF vis3 m] by (auto simp add: vulnCol_def)
    note p = getVarByName_Some [OF j]
    have "lpCols lp3 ! j \<in> set (lpCols lp3)" using p by (intro nth_mem) simp
    moreover have "kind (colName (lpCols lp3 ! j)) = ''vuln''"
      using p by (simp add: vulnName_def kind_def)
    ultimately have "lpCols lp3 ! j = vulnCol nd i"
      using vi3 p unfolding vulnInv_def vulnCol_def by metis
    then show ?thesis using j unfolding found_def by blast
  qed
  have "\<exists>lp'. foldE (ocStep cg nd) [0..<length ?order] lp3 = Inr lp' \<and> wfLP lp' \<and>
          appendsRows lp3 (map (\<lambda>i. (ocRow nd i, ocTerms cg nd i)) [0..<length ?order]) lp'"
  proof (rule foldE_appends [where ?lp0.0 = lp3])
    fix i l
    assume i: "i \<in> set [0..<length ?order]" and wl: "wfLP l"
      and cl: "lpCols l = lpCols lp3" "lpVisible l = lpVisible lp3"
    have il: "i < length ?order" using i by simp
    have "2 \<le> length ?order" using deg len by simp
    note ne = prevEdge_ne [OF dist this il]
    note fc = found_cong [OF cl]
    have a: "found l (dirName nd (prevEdge cg nd i)) (dirCol (dirName nd (prevEdge cg nd i)))"
      unfolding fc by (rule dirs3) (rule prevEdge_mem [OF il])
    have b: "found l (dirName nd (?order ! i)) (dirCol (dirName nd (?order ! i)))"
      unfolding fc by (rule dirs3) (simp add: il)
    have c: "found l (vulnName nd i) (vulnCol nd i)"
      unfolding fc by (rule vuln3) (use il len in simp)
    show "\<exists>lp'. ocStep cg nd i l = Inr lp' \<and> wfLP lp' \<and> appendsRows l [(ocRow nd i, ocTerms cg nd i)] lp'"
      by (rule ocStep_ok [OF wl ne a b c])
  qed (simp_all add: wf3)
  then obtain lp' where r: "foldE (ocStep cg nd) [0..<length ?order] lp3 = Inr lp'" "wfLP lp'"
    "appendsRows lp3 (map (\<lambda>i. (ocRow nd i, ocTerms cg nd i)) [0..<length ?order]) lp'"
    by blast
  have "vulnInv lp'" using vi3 r(3) unfolding vulnInv_def appendsRows_def by simp
  then show ?thesis
    unfolding eq using r v3 c3 vis3 unfolding appendsRows_def orderViewOf_def by simp
qed

lemma tailIs_len: "tailIs lp0 V T cs lp \<Longrightarrow> length (lpRows lp) = length V + length T"
  using rowView_length [of lp] unfolding tailIs_def by (metis length_append)

lemma tailIs_addRow:
  assumes "tailIs lp0 V T cs lp"
  shows "tailIs lp0 V (T @ [(\<lparr>rowName = nm, rowRhs = rhs, rowSense = sense\<rparr>, [])]) cs
           (snd (addRow nm rhs sense lp))"
  using assms unfolding tailIs_def by (simp add: wfLP_addRow rowView_addRow)

lemma wfLP_addColBnd: "wfLP lp \<Longrightarrow> wfLP (snd (addColBnd nm ty obj b lp))"
  unfolding wfLP_def addColBnd_def by fastforce

lemma tailIs_addColBnd:
  assumes "tailIs lp0 V T cs lp"
  shows "tailIs lp0 V T (cs @ [\<lparr>colName = nm, colType = ty, colObj = obj, colBnds = b\<rparr>])
           (snd (addColBnd nm ty obj b lp))"
  using assms unfolding tailIs_def
  by (simp add: wfLP_addColBnd rowView_addColBnd) (simp add: addColBnd_def)

lemma tailIs_addColToRow:
  assumes t: "tailIs lp0 V T cs lp" and i: "i < length T" and c: "c < length (lpCols lp)"
    and r: "r = length V + i"
  shows "tailIs lp0 V (T[i := (fst (T ! i), snd (T ! i) @ [(lpCols lp ! c, k)])]) cs
           (addColToRow r c k lp)"
proof -
  have rl: "r < length (lpRows lp)" using tailIs_len [OF t] i r by simp
  have v: "rowView lp = V @ T" using t by (simp add: tailIs_def)
  have "rowView (addColToRow r c k lp) =
          V @ T[i := (fst (T ! i), snd (T ! i) @ [(lpCols lp ! c, k)])]"
    using rowView_addColToRow [OF rl, of c k] i by (simp add: v r list_update_append nth_append)
  then show ?thesis
    using t c unfolding tailIs_def by (simp add: wfLP_addColToRow)
qed

lemma bucketStep_tail:
  assumes t: "tailIs lp0 V (P @ [(ra, ta), (rs, ts)]) cs lp"
    and r: "rowAng = length V + length P" "rowSum = Suc rowAng"
  shows "tailIs lp0 V (P @ [(ra, ta @ [(bucketCol pens a b k, - real (k + 1))]),
                            (rs, ts @ [(bucketCol pens a b k, 1)])])
           (cs @ [bucketCol pens a b k])
           (bucketStep pens a b rowAng rowSum k lp)"
proof -
  let ?c = "bucketCol pens a b k"
  define lp1 where "lp1 = snd (addColBnd (colName ?c) BIN (colObj ?c) None lp)"
  have e: "addCol (colName ?c) BIN (colObj ?c) lp = (length (lpCols lp), lp1)"
    by (simp add: lp1_def addCol_def prod_eq_iff)
  have c: "?c = \<lparr>colName = colName ?c, colType = BIN, colObj = colObj ?c, colBnds = None\<rparr>"
    by (simp add: bucketCol_def)
  have t1: "tailIs lp0 V (P @ [(ra, ta), (rs, ts)]) (cs @ [?c]) lp1"
    using tailIs_addColBnd [OF t, of "colName ?c" BIN "colObj ?c" None] c
    unfolding lp1_def by simp
  have cl: "lpCols lp1 = lpCols lp @ [?c]"
    using c unfolding lp1_def addColBnd_def by simp
  have t2: "tailIs lp0 V (P @ [(ra, ta @ [(?c, - real (k + 1))]), (rs, ts)]) (cs @ [?c])
              (addColToRow rowAng (length (lpCols lp)) (- real (k + 1)) lp1)"
    using tailIs_addColToRow [OF t1, of "length P" "length (lpCols lp)" rowAng "- real (k + 1)"] r
    by (simp add: cl nth_append list_update_append)
  have cl2: "lpCols (addColToRow rowAng (length (lpCols lp)) (- real (k + 1)) lp1) = lpCols lp @ [?c]"
    by (simp add: cl)
  have t3: "tailIs lp0 V (P @ [(ra, ta @ [(?c, - real (k + 1))]), (rs, ts @ [(?c, 1)])]) (cs @ [?c])
              (addColToRow rowSum (length (lpCols lp)) 1
                 (addColToRow rowAng (length (lpCols lp)) (- real (k + 1)) lp1))"
    using tailIs_addColToRow [OF t2, of "Suc (length P)" "length (lpCols lp)" rowSum 1] r
    by (simp add: cl nth_append list_update_append)
  have "bucketStep pens a b rowAng rowSum k lp =
          addColToRow rowSum (length (lpCols lp)) 1
            (addColToRow rowAng (length (lpCols lp)) (- real (k + 1)) lp1)"
    using e unfolding bucketStep_def bucketCol_def bucketIdx_def Let_def
    by (simp split: if_splits)
  then show ?thesis using t3 by simp
qed

lemma bucket_fold:
  assumes t: "tailIs lp0 V (P @ [(ra, ta), (rs, ts)]) cs lp"
    and r: "rowAng = length V + length P" "rowSum = Suc rowAng"
  shows "tailIs lp0 V (P @ [(ra, ta @ map (\<lambda>k. (bucketCol pens a b k, - real (k + 1))) ks),
                            (rs, ts @ map (\<lambda>k. (bucketCol pens a b k, 1)) ks)])
           (cs @ map (bucketCol pens a b) ks)
           (fold (bucketStep pens a b rowAng rowSum) ks lp)"
  using t
proof (induction ks arbitrary: ta ts cs lp)
  case Nil
  then show ?case by simp
next
  case (Cons k ks)
  show ?case
    using Cons.IH [OF bucketStep_tail [OF Cons.prems r, of pens a b k]] by simp
qed

lemma tailIs_start: "wfLP lp \<Longrightarrow> tailIs lp (rowView lp) [] [] lp"
  by (simp add: tailIs_def)

lemma tailIs_builds: "tailIs lp (rowView lp) T cs lp' \<Longrightarrow> builds lp T cs lp'"
  by (simp add: tailIs_def builds_def)

lemma tailIs_cols: "tailIs lp0 V T cs lp \<Longrightarrow> lpCols lp = lpCols lp0 @ cs"
  by (simp add: tailIs_def)

lemma tailIs_lookup:
  assumes t: "tailIs lp0 V T cs lp" and w: "wfLP lp0" and g: "getVarByName lp0 nm = Some c"
  shows "getVarByName lp nm = Some c" "c < length (lpCols lp)" "lpCols lp ! c = lpCols lp0 ! c"
proof -
  have cl: "lpCols lp = lpCols lp0 @ cs" and vis: "lpVisible lp = lpVisible lp0"
    using t by (simp_all add: tailIs_def)
  show "getVarByName lp nm = Some c"
    by (rule getVarByName_mono [OF g cl _ w]) (simp add: vis)
  show "c < length (lpCols lp)" "lpCols lp ! c = lpCols lp0 ! c"
    using getVarByName_Some [OF g] by (simp_all add: cl nth_append)
qed

lemma bendStep_ok:
  assumes wf: "wfLP lp"
    and ab: "a = cnAdjList (cgNode cg nd) ! i" "b = cnAdjList (cgNode cg nd) ! j"
    and ne: "a \<noteq> b"
    and fa: "found lp (dirName nd a) (dirCol (dirName nd a))"
    and fb: "found lp (dirName nd b) (dirCol (dirName nd b))"
    and sh: "sharedLines cg a b \<noteq> 0"
  shows "\<exists>lp'. bendStep gg cg nd (i, j) lp = Inr lp' \<and>
           builds lp (bendViewOf (ggCosts gg) nd a b) (bendColsOf (ggCosts gg) a b) lp'"
proof -
  obtain ca where ca: "getVarByName lp (dirName nd a) = Some ca" "lpCols lp ! ca = dirCol (dirName nd a)"
    using fa unfolding found_def by blast
  obtain cb where cb: "getVarByName lp (dirName nd b) = Some cb" "lpCols lp ! cb = dirCol (dirName nd b)"
    using fb unfolding found_def by blast
  let ?V = "rowView lp"
  let ?lo = "\<lparr>rowName = ''nc'' @ pairName a b @ ''lo'', rowRhs = 0, rowSense = LO\<rparr>"
  let ?up = "\<lparr>rowName = ''nc'' @ pairName a b @ ''up'', rowRhs = 7, rowSense = UP\<rparr>"
  let ?ac = "\<lparr>rowName = ''ac'' @ pairName a b, rowRhs = 0, rowSense = FIX\<rparr>"
  let ?asc = "\<lparr>rowName = ''asc'' @ pairName a b, rowRhs = 1, rowSense = UP\<rparr>"
  let ?A = "dirCol (dirName nd a)" and ?B = "dirCol (dirName nd b)" and ?N = "negCol a b"
  define cn where "cn = length (lpCols lp)"
  define r1 where "r1 = length (lpRows lp)"
  define lp1 where "lp1 = snd (addColBnd (''negdist'' @ pairName a b) BIN 0 None lp)"
  define lp2 where "lp2 = snd (addRow (''nc'' @ pairName a b @ ''lo'') 0 LO lp1)"
  define lp3 where "lp3 = snd (addRow (''nc'' @ pairName a b @ ''up'') 7 UP lp2)"
  define lp4 where "lp4 = addColToRow (Suc r1) ca 1 (addColToRow r1 ca 1 lp3)"
  define lp5 where "lp5 = addColToRow (Suc r1) cb (- 1) (addColToRow r1 cb (- 1) lp4)"
  define lp6 where "lp6 = addColToRow (Suc r1) cn 8 (addColToRow r1 cn 8 lp5)"
  define lp7 where "lp7 = snd (addRow (''ac'' @ pairName a b) 0 FIX lp6)"
  define lp8 where "lp8 = addColToRow (Suc (Suc r1)) cn 8
                            (addColToRow (Suc (Suc r1)) cb (- 1)
                              (addColToRow (Suc (Suc r1)) ca 1 lp7))"
  define lp9 where "lp9 = snd (addRow (''asc'' @ pairName a b) 1 UP lp8)"
  have rl: "r1 = length ?V" by (simp add: r1_def)
  note t0 = tailIs_start [OF wf]
  have t1: "tailIs lp ?V [] [?N] lp1"
    using tailIs_addColBnd [OF t0, of "''negdist'' @ pairName a b" BIN 0 None]
    by (simp add: lp1_def negCol_def)
  have t2: "tailIs lp ?V [(?lo, [])] [?N] lp2"
    using tailIs_addRow [OF t1, of "''nc'' @ pairName a b @ ''lo''" 0 LO] by (simp add: lp2_def)
  have t3: "tailIs lp ?V [(?lo, []), (?up, [])] [?N] lp3"
    using tailIs_addRow [OF t2, of "''nc'' @ pairName a b @ ''up''" 7 UP] by (simp add: lp3_def)
  have cna: "\<And>l T. tailIs lp ?V T [?N] l \<Longrightarrow> cn < length (lpCols l) \<and> lpCols l ! cn = ?N"
    by (simp add: tailIs_def cn_def)
  have t4a: "tailIs lp ?V [(?lo, [(?A, 1)]), (?up, [])] [?N] (addColToRow r1 ca 1 lp3)"
    using tailIs_addColToRow [OF t3, of 0 ca r1 1] tailIs_lookup [OF t3 wf ca(1)] ca(2) rl
    by simp
  have t4: "tailIs lp ?V [(?lo, [(?A, 1)]), (?up, [(?A, 1)])] [?N] lp4"
    using tailIs_addColToRow [OF t4a, of 1 ca "Suc r1" 1] tailIs_lookup [OF t4a wf ca(1)] ca(2) rl
    by (simp add: lp4_def)
  have t5a: "tailIs lp ?V [(?lo, [(?A, 1), (?B, - 1)]), (?up, [(?A, 1)])] [?N]
               (addColToRow r1 cb (- 1) lp4)"
    using tailIs_addColToRow [OF t4, of 0 cb r1 "- 1"] tailIs_lookup [OF t4 wf cb(1)] cb(2) rl
    by simp
  have t5: "tailIs lp ?V [(?lo, [(?A, 1), (?B, - 1)]), (?up, [(?A, 1), (?B, - 1)])] [?N] lp5"
    using tailIs_addColToRow [OF t5a, of 1 cb "Suc r1" "- 1"] tailIs_lookup [OF t5a wf cb(1)] cb(2) rl
    by (simp add: lp5_def)
  have t6a: "tailIs lp ?V [(?lo, bendBase nd a b), (?up, [(?A, 1), (?B, - 1)])] [?N]
               (addColToRow r1 cn 8 lp5)"
    using tailIs_addColToRow [OF t5, of 0 cn r1 8] cna [OF t5] rl
    by (simp add: bendBase_def)
  have t6: "tailIs lp ?V [(?lo, bendBase nd a b), (?up, bendBase nd a b)] [?N] lp6"
    using tailIs_addColToRow [OF t6a, of 1 cn "Suc r1" 8] cna [OF t6a] rl
    by (simp add: lp6_def bendBase_def)
  have t7: "tailIs lp ?V [(?lo, bendBase nd a b), (?up, bendBase nd a b), (?ac, [])] [?N] lp7"
    using tailIs_addRow [OF t6, of "''ac'' @ pairName a b" 0 FIX] by (simp add: lp7_def)
  have t8a: "tailIs lp ?V [(?lo, bendBase nd a b), (?up, bendBase nd a b), (?ac, [(?A, 1)])] [?N]
               (addColToRow (Suc (Suc r1)) ca 1 lp7)"
    using tailIs_addColToRow [OF t7, of 2 ca "Suc (Suc r1)" 1] tailIs_lookup [OF t7 wf ca(1)] ca(2) rl
    by simp
  have t8b: "tailIs lp ?V [(?lo, bendBase nd a b), (?up, bendBase nd a b), (?ac, [(?A, 1), (?B, - 1)])] [?N]
               (addColToRow (Suc (Suc r1)) cb (- 1) (addColToRow (Suc (Suc r1)) ca 1 lp7))"
    using tailIs_addColToRow [OF t8a, of 2 cb "Suc (Suc r1)" "- 1"] tailIs_lookup [OF t8a wf cb(1)] cb(2) rl
    by simp
  have t8: "tailIs lp ?V [(?lo, bendBase nd a b), (?up, bendBase nd a b), (?ac, bendBase nd a b)] [?N] lp8"
    using tailIs_addColToRow [OF t8b, of 2 cn "Suc (Suc r1)" 8] cna [OF t8b] rl
    by (simp add: lp8_def bendBase_def)
  have t9: "tailIs lp ?V ([(?lo, bendBase nd a b), (?up, bendBase nd a b)] @
              [(?ac, bendBase nd a b), (?asc, [])]) [?N] lp9"
    using tailIs_addRow [OF t8, of "''asc'' @ pairName a b" 1 UP] by (simp add: lp9_def)
  note tf = bucket_fold [OF t9, of "Suc (Suc r1)" "Suc (Suc (Suc r1))" "ggCosts gg" a b "[0..<7]"]
  have tF: "tailIs lp ?V (bendViewOf (ggCosts gg) nd a b) (bendColsOf (ggCosts gg) a b)
              (fold (bucketStep (ggCosts gg) a b (Suc (Suc r1)) (Suc (Suc (Suc r1)))) [0..<7] lp9)"
    using tf rl by (simp add: bendViewOf_def bendColsOf_def)
  have e1: "addCol (''negdist'' @ pairName a b) BIN 0 lp = (cn, lp1)"
    by (simp add: addCol_def lp1_def cn_def prod_eq_iff)
  have e2: "addRow (''nc'' @ pairName a b @ ''lo'') 0 LO lp1 = (r1, lp2)"
    using tailIs_len [OF t1] by (simp add: lp2_def r1_def prod_eq_iff)
  have e3: "addRow (''nc'' @ pairName a b @ ''up'') 7 UP lp2 = (Suc r1, lp3)"
    using tailIs_len [OF t2] by (simp add: lp3_def r1_def prod_eq_iff)
  have g3: "getVarByName lp3 (dirName nd a) = Some ca"
    by (rule tailIs_lookup [OF t3 wf ca(1)])
  have g4: "getVarByName lp4 (dirName nd b) = Some cb"
    by (rule tailIs_lookup [OF t4 wf cb(1)])
  have e7: "addRow (''ac'' @ pairName a b) 0 FIX lp6 = (Suc (Suc r1), lp7)"
    using tailIs_len [OF t6] by (simp add: lp7_def r1_def prod_eq_iff)
  have e9: "addRow (''asc'' @ pairName a b) 1 UP lp8 = (Suc (Suc (Suc r1)), lp9)"
    using tailIs_len [OF t8] by (simp add: lp9_def r1_def prod_eq_iff)
  have "bendStep gg cg nd (i, j) lp =
          Inr (fold (bucketStep (ggCosts gg) a b (Suc (Suc r1)) (Suc (Suc (Suc r1)))) [0..<7] lp9)"
    using ne sh e1 e2 e3 g3 g4 e7 e9
    unfolding bendStep_def ab [symmetric] fst_conv snd_conv Let_def
    by (simp add: maxDeg_def
          lp4_def [symmetric] lp5_def [symmetric] lp6_def [symmetric] lp8_def [symmetric])
  then show ?thesis
    using tailIs_builds [OF tF] by simp
qed

lemma dirsFound_mono:
  assumes d: "dirsFound cg lp" and w: "wfLP lp'" and c: "lpCols lp' = lpCols lp @ nc"
    and v: "lpVisible lp \<le> lpVisible lp'"
  shows "dirsFound cg lp'"
proof -
  have wf: "wfLP lp" using d by (simp add: dirsFound_def)
  show ?thesis
    unfolding dirsFound_def
  proof (intro conjI ballI impI)
    show "wfLP lp'" by (rule w)
  next
    fix nd e
    assume "nd \<in> set (cgNds cg)" "e \<in> set (cnAdjList (cgNode cg nd))" "2 \<le> combDeg cg nd"
    then have "found lp (dirName nd e) (dirCol (dirName nd e))"
      using d unfolding dirsFound_def by blast
    then show "found lp' (dirName nd e) (dirCol (dirName nd e))"
      by (rule found_mono [OF _ wf c v])
  qed
qed

lemma dirsFound_builds:
  assumes "dirsFound cg lp" "builds lp V cs lp'"
  shows "dirsFound cg lp'"
  using assms(2) dirsFound_mono [OF assms(1), of lp' cs] by (simp add: builds_def)

lemma foldE_builds:
  assumes step: "\<And>x lp. x \<in> set xs \<Longrightarrow> I lp \<Longrightarrow>
       \<exists>lp'. f x lp = Inr lp' \<and> builds lp (GV x) (GC x) lp' \<and> I lp'"
    and "I lp" "wfLP lp"
  shows "\<exists>lp'. foldE f xs lp = Inr lp' \<and>
           builds lp (concat (map GV xs)) (concat (map GC xs)) lp' \<and> I lp'"
  using assms
proof (induction xs arbitrary: lp)
  case Nil
  then show ?case by (simp add: builds_refl)
next
  case (Cons x xs)
  obtain lp1 where 1: "f x lp = Inr lp1" "builds lp (GV x) (GC x) lp1" "I lp1"
    using Cons.prems(1) [OF _ Cons.prems(2)] by auto
  have w1: "wfLP lp1" using 1(2) by (simp add: builds_def)
  obtain lp2 where 2: "foldE f xs lp1 = Inr lp2"
    "builds lp1 (concat (map GV xs)) (concat (map GC xs)) lp2" "I lp2"
    using Cons.IH [OF _ 1(3) w1] Cons.prems(1) by auto
  show ?case
    using 1(1) 2(1,3) builds_trans [OF 1(2) 2(2)] by simp
qed

lemma concat_map_if:
  "concat (map (\<lambda>x. if P x then f x else []) xs) = concat (map f (filter P xs))"
  by (induction xs) simp_all

lemma idxPairs_mem: "ij \<in> set (idxPairs m) \<Longrightarrow> fst ij < snd ij \<and> snd ij < m"
  unfolding idxPairs_def by auto

lemma bendStep_builds:
  assumes d: "dirsFound cg lp" and nd: "nd \<in> set (cgNds cg)"
    and dist: "distinct (cnAdjList (cgNode cg nd))"
    and ij: "ij \<in> set (idxPairs (length (cnAdjList (cgNode cg nd))))"
  shows "\<exists>lp'. bendStep gg cg nd ij lp = Inr lp' \<and>
           builds lp
             (if sharedLines cg (cnAdjList (cgNode cg nd) ! fst ij) (cnAdjList (cgNode cg nd) ! snd ij) \<noteq> 0
              then bendViewOf (ggCosts gg) nd (cnAdjList (cgNode cg nd) ! fst ij) (cnAdjList (cgNode cg nd) ! snd ij)
              else [])
             (if sharedLines cg (cnAdjList (cgNode cg nd) ! fst ij) (cnAdjList (cgNode cg nd) ! snd ij) \<noteq> 0
              then bendColsOf (ggCosts gg) (cnAdjList (cgNode cg nd) ! fst ij) (cnAdjList (cgNode cg nd) ! snd ij)
              else []) lp' \<and>
           dirsFound cg lp'"
proof -
  let ?adj = "cnAdjList (cgNode cg nd)"
  let ?a = "?adj ! fst ij" and ?b = "?adj ! snd ij"
  have wf: "wfLP lp" using d by (simp add: dirsFound_def)
  have lt: "fst ij < snd ij" "snd ij < length ?adj" using idxPairs_mem [OF ij] by simp_all
  have ne: "?a \<noteq> ?b" using lt dist by (simp add: nth_eq_iff_index_eq)
  have deg: "2 \<le> combDeg cg nd" using lt by (simp add: combDeg_def)
  have ma: "?a \<in> set ?adj" "?b \<in> set ?adj" using lt by simp_all
  have fa: "found lp (dirName nd ?a) (dirCol (dirName nd ?a))"
    and fb: "found lp (dirName nd ?b) (dirCol (dirName nd ?b))"
    using d nd ma deg unfolding dirsFound_def by blast+
  show ?thesis
  proof (cases "sharedLines cg ?a ?b = 0")
    case True
    have "bendStep gg cg nd ij lp = Inr lp"
      using ne True unfolding bendStep_def Let_def by simp
    then show ?thesis using True d wf by (simp add: builds_refl)
  next
    case False
    obtain lp' where r: "bendStep gg cg nd (fst ij, snd ij) lp = Inr lp'"
      "builds lp (bendViewOf (ggCosts gg) nd ?a ?b) (bendColsOf (ggCosts gg) ?a ?b) lp'"
      using bendStep_ok [OF wf refl refl ne fa fb False, of gg] by blast
    show ?thesis
      using r False dirsFound_builds [OF d r(2)] by simp
  qed
qed

lemma bendVars_ok:
  assumes d: "dirsFound cg lp" and wc: "wfComb cg"
  shows "\<exists>lp'. bendVars gg cg lp = Inr lp' \<and> builds lp (bendView gg cg) (bendCols gg cg) lp'"
proof -
  have wf: "wfLP lp" using d by (simp add: dirsFound_def)
  let ?adj = "\<lambda>nd. cnAdjList (cgNode cg nd)"
  let ?sh = "\<lambda>nd ij. sharedLines cg (?adj nd ! fst ij) (?adj nd ! snd ij) \<noteq> 0"
  let ?GV = "\<lambda>nd ij. if ?sh nd ij then bendViewOf (ggCosts gg) nd (?adj nd ! fst ij) (?adj nd ! snd ij) else []"
  let ?GC = "\<lambda>nd ij. if ?sh nd ij then bendColsOf (ggCosts gg) (?adj nd ! fst ij) (?adj nd ! snd ij) else []"
  have inner: "\<exists>lp'. foldE (bendStep gg cg nd) (idxPairs (length (?adj nd))) l = Inr lp' \<and>
                 builds l (concat (map (?GV nd) (idxPairs (length (?adj nd)))))
                          (concat (map (?GC nd) (idxPairs (length (?adj nd))))) lp' \<and>
                 dirsFound cg lp'"
    if nd: "nd \<in> set (cgNds cg)" and dl: "dirsFound cg l" for nd l
  proof (rule foldE_builds [where I = "dirsFound cg"])
    fix x l'
    assume "x \<in> set (idxPairs (length (?adj nd)))" "dirsFound cg l'"
    then show "\<exists>lp'. bendStep gg cg nd x l' = Inr lp' \<and> builds l' (?GV nd x) (?GC nd x) lp' \<and>
                 dirsFound cg lp'"
      using bendStep_builds [of cg l' nd x gg] nd wc unfolding wfComb_def by blast
  next
    show "dirsFound cg l" by (rule dl)
    show "wfLP l" using dl by (simp add: dirsFound_def)
  qed
  have "\<exists>lp'. foldE (\<lambda>nd. foldE (bendStep gg cg nd) (idxPairs (length (?adj nd)))) (cgNds cg) lp = Inr lp' \<and>
          builds lp (concat (map (\<lambda>nd. concat (map (?GV nd) (idxPairs (length (?adj nd))))) (cgNds cg)))
                    (concat (map (\<lambda>nd. concat (map (?GC nd) (idxPairs (length (?adj nd))))) (cgNds cg))) lp' \<and>
          dirsFound cg lp'"
    by (rule foldE_builds [where I = "dirsFound cg"]) (use inner d wf in blast)+
  moreover have "concat (map (?GV nd) (idxPairs (length (?adj nd)))) =
      concat (map (\<lambda>ab. bendViewOf (ggCosts gg) nd (fst ab) (snd ab)) (bendPairs cg nd))" for nd
    unfolding bendPairs_def concat_map_if filter_map by (simp add: comp_def)
  moreover have "concat (map (?GC nd) (idxPairs (length (?adj nd)))) =
      concat (map (\<lambda>ab. bendColsOf (ggCosts gg) (fst ab) (snd ab)) (bendPairs cg nd))" for nd
    unfolding bendPairs_def concat_map_if filter_map by (simp add: comp_def)
  ultimately show ?thesis
    unfolding bendVars_def bendView_def bendCols_def by auto
qed

lemma fold_cols:
  "(\<And>x l. lpCols (f x l) = lpCols l) \<Longrightarrow> lpCols (fold f xs l) = lpCols l"
  by (induction xs arbitrary: l) simp_all

lemma fold_cols_append:
  "(\<And>x l. lpCols (f x l) = lpCols l @ g x) \<Longrightarrow>
     lpCols (fold f xs l) = lpCols l @ concat (map g xs)"
  by (induction xs arbitrary: l) simp_all

lemma concat_map_ifnot:
  "concat (map (\<lambda>x. if d x < (2::nat) then [] else f x) xs) =
     concat (map f (filter (\<lambda>x. 2 \<le> d x) xs))"
  by (induction xs) (simp_all add: not_less)

lemma dirSinkStep_cols: "lpCols (dirSinkStep gg cg nd edg row n lp) = lpCols lp"
  unfolding dirSinkStep_def
  by (auto intro!: fold_cols split: option.splits)

lemma dirStep_cols: "lpCols (dirStep gg cg nd e lp) = lpCols lp @ [dirCol (dirName nd e)]"
  unfolding dirStep_def Let_def split_def
  by (simp add: fold_cols [of "dirSinkStep gg cg nd e r" for r, OF dirSinkStep_cols]
        addColBnd_def dirCol_def maxDeg_def)

lemma dirVars_cols: "lpCols (dirVars gg cg lp) = lpCols lp @ dirCols cg"
proof -
  have "lpCols (dirVars gg cg lp) =
          lpCols lp @ concat (map (\<lambda>nd. if combDeg cg nd < 2 then []
                                          else map (\<lambda>e. dirCol (dirName nd e)) (cnAdjList (cgNode cg nd)))
                                (cgNds cg))"
    unfolding dirVars_def
  proof (rule fold_cols_append)
    fix nd l
    have "lpCols (fold (dirStep gg cg nd) es l) = lpCols l @ map (\<lambda>e. dirCol (dirName nd e)) es" for es
      using fold_cols_append [of "dirStep gg cg nd" "\<lambda>e. [dirCol (dirName nd e)]" es l]
      by (simp add: dirStep_cols concat_map_single)
    then show "lpCols (if combDeg cg nd < 2 then l else fold (dirStep gg cg nd) (cnAdjList (cgNode cg nd)) l) =
                 lpCols l @ (if combDeg cg nd < 2 then []
                             else map (\<lambda>e. dirCol (dirName nd e)) (cnAdjList (cgNode cg nd)))"
      by simp
  qed
  moreover have "concat (map (\<lambda>nd. if combDeg cg nd < 2 then []
                                     else map (\<lambda>e. dirCol (dirName nd e)) (cnAdjList (cgNode cg nd)))
                           (cgNds cg)) = dirCols cg"
    unfolding dirCols_def by (rule concat_map_ifnot)
  ultimately show ?thesis by simp
qed

lemma kind_dirName: "kind (dirName nd e) = ''d''"
  by (simp add: dirName_def kind_def)

lemma dirsFound_init:
  assumes wf: "wfLP lp" and vis: "lpVisible lp = length (lpCols lp)"
    and cols: "lpCols lp = cs @ dirCols cg"
    and nod: "\<forall>c\<in>set cs. kind (colName c) \<noteq> ''d''"
  shows "dirsFound cg lp"
  unfolding dirsFound_def
proof (intro conjI ballI impI)
  show "wfLP lp" by (rule wf)
next
  fix nd e
  assume nd: "nd \<in> set (cgNds cg)" and e: "e \<in> set (cnAdjList (cgNode cg nd))"
    and deg: "2 \<le> combDeg cg nd"
  have inv: "c = dirCol (colName c)" if "c \<in> set (lpCols lp)" "kind (colName c) = ''d''" for c
  proof -
    have "c \<in> set (dirCols cg)" using that nod unfolding cols by auto
    then show ?thesis unfolding dirCols_def by (auto simp add: dirCol_def)
  qed
  have m: "dirCol (dirName nd e) \<in> set (lpCols lp)"
    unfolding cols dirCols_def using nd e deg by auto
  obtain i where i: "getVarByName lp (dirName nd e) = Some i"
    using getVarByName_exists [OF vis m] by (auto simp add: dirCol_def)
  note p = getVarByName_Some [OF i]
  have "lpCols lp ! i \<in> set (lpCols lp)" using p by (intro nth_mem) simp
  then have "lpCols lp ! i = dirCol (dirName nd e)"
    using inv [of "lpCols lp ! i"] p by (simp add: kind_dirName)
  then show "found lp (dirName nd e) (dirCol (dirName nd e))"
    using i unfolding found_def by blast
qed

lemma wfComb_order:
  assumes "wfComb cg" "nd \<in> set (cgNds cg)" "3 \<le> combDeg cg nd"
  shows "length (cnOrder (cgNode cg nd)) = combDeg cg nd" "distinct (cnOrder (cgNode cg nd))"
    "set (cnOrder (cgNode cg nd)) = set (cnAdjList (cgNode cg nd))"
proof -
  have d: "distinct (cnAdjList (cgNode cg nd))" "distinct (cnOrder (cgNode cg nd))"
    and s: "set (cnOrder (cgNode cg nd)) = set (cnAdjList (cgNode cg nd))"
    using assms unfolding wfComb_def by blast+
  show "length (cnOrder (cgNode cg nd)) = combDeg cg nd"
    using distinct_card [OF d(1)] distinct_card [OF d(2)] s by (simp add: combDeg_def)
  show "distinct (cnOrder (cgNode cg nd))" by (rule d(2))
  show "set (cnOrder (cgNode cg nd)) = set (cnAdjList (cgNode cg nd))" by (rule s)
qed

lemma orderRows_fold:
  assumes sub: "set nds \<subseteq> set (cgNds cg)" and d: "dirsFound cg lp" and vi: "vulnInv lp"
    and wc: "wfComb cg"
  shows "\<exists>lp'. foldE (orderStep cg) nds lp = Inr lp' \<and> dirsFound cg lp' \<and> vulnInv lp' \<and>
           rowView lp' = rowView lp @
             concat (map (orderViewOf cg) (filter (\<lambda>nd. 3 \<le> combDeg cg nd) nds)) \<and>
           lpCols lp' = lpCols lp @
             concat (map (\<lambda>nd. map (vulnCol nd) [0..<combDeg cg nd])
               (filter (\<lambda>nd. 3 \<le> combDeg cg nd) nds)) \<and>
           lpVisible lp \<le> lpVisible lp'"
  using sub d vi
proof (induction nds arbitrary: lp)
  case Nil
  then show ?case by simp
next
  case (Cons nd nds)
  have wf: "wfLP lp" using Cons.prems(2) by (simp add: dirsFound_def)
  have ndm: "nd \<in> set (cgNds cg)" and sub': "set nds \<subseteq> set (cgNds cg)"
    using Cons.prems(1) by simp_all
  show ?case
  proof (cases "3 \<le> combDeg cg nd")
    case False
    have "orderStep cg nd lp = Inr lp" using False by (simp add: orderStep_def)
    then show ?thesis
      using Cons.IH [OF sub' Cons.prems(2,3)] False by simp
  next
    case True
    note o = wfComb_order [OF wc ndm True]
    have dirs: "\<forall>e\<in>set (cnOrder (cgNode cg nd)). found lp (dirName nd e) (dirCol (dirName nd e))"
      using Cons.prems(2) ndm True unfolding dirsFound_def o(3) by auto
    obtain lp1 where 1: "orderStep cg nd lp = Inr lp1" "wfLP lp1" "vulnInv lp1"
      "rowView lp1 = rowView lp @ orderViewOf cg nd"
      "lpCols lp1 = lpCols lp @ map (vulnCol nd) [0..<combDeg cg nd]"
      "lpVisible lp1 = length (lpCols lp1)"
      using orderStep_ok [OF wf Cons.prems(3) True o(1) o(2) dirs] by blast
    have v1: "lpVisible lp \<le> lpVisible lp1"
      using wf 1(5,6) by (simp add: wfLP_def)
    have d1: "dirsFound cg lp1"
      by (rule dirsFound_mono [OF Cons.prems(2) 1(2) 1(5) v1])
    obtain lp2 where 2: "foldE (orderStep cg) nds lp1 = Inr lp2" "dirsFound cg lp2" "vulnInv lp2"
      "rowView lp2 = rowView lp1 @
         concat (map (orderViewOf cg) (filter (\<lambda>nd. 3 \<le> combDeg cg nd) nds))"
      "lpCols lp2 = lpCols lp1 @
         concat (map (\<lambda>nd. map (vulnCol nd) [0..<combDeg cg nd])
           (filter (\<lambda>nd. 3 \<le> combDeg cg nd) nds))"
      "lpVisible lp1 \<le> lpVisible lp2"
      using Cons.IH [OF sub' d1 1(3)] by blast
    show ?thesis
      using 1(1,4,5) 2 v1 True by simp
  qed
qed

lemma orderRows_ok:
  assumes "dirsFound cg lp" "vulnInv lp" "wfComb cg"
  shows "\<exists>lp'. orderRows cg lp = Inr lp' \<and> dirsFound cg lp' \<and>
           rowView lp' = rowView lp @ orderView cg \<and> lpCols lp' = lpCols lp @ orderCols cg \<and>
           lpVisible lp \<le> lpVisible lp'"
  using orderRows_fold [OF subset_refl assms]
  unfolding orderRows_def orderView_def orderCols_def by blast

lemma ext_phase:
  assumes wf: "wfLP lp" and e: "ext (length (lpRows lp)) K C lp lp'"
  shows "phase K C lp lp'"
proof -
  note g = ext_grows [OF e]
  show ?thesis
    using g grows_rowView [OF g wf] wf unfolding phase_def grows_def by blast
qed

lemma phase_rows_only:
  assumes "phase K (\<lambda>c. False) lp lp'"
  shows "lpCols lp' = lpCols lp"
proof -
  obtain nc where "lpCols lp' = lpCols lp @ nc" "\<forall>c\<in>set nc. False"
    using assms unfolding phase_def by blast
  then show ?thesis by (cases nc) auto
qed

lemma phase_cols_only:
  assumes "phase (\<lambda>c. False) C lp lp'"
  shows "rowView lp' = rowView lp"
proof -
  obtain nv where "rowView lp' = rowView lp @ nv" "\<forall>r\<in>set nv. False"
    using assms unfolding phase_def by blast
  then show ?thesis by (cases nv) auto
qed

lemma phase_update:
  assumes "phase K C lp lp'"
  shows "phase K C lp (update lp')"
proof -
  have "lpVisible lp' \<le> length (lpCols lp')" using assms by (simp add: phase_def wfLP_def)
  then show ?thesis
    using assms unfolding phase_def by (simp add: wfLP_update)
qed

lemma varTerm_stable:
  assumes vis: "lpVisible lp = length (lpCols lp)" and c: "lpCols lp' = lpCols lp @ nc"
    and v: "lpVisible lp \<le> lpVisible lp'" and n: "\<forall>c\<in>set nc. colName c \<noteq> nm"
  shows "varTerm lp' nm k = varTerm lp nm k"
proof -
  note g = getVarByName_stable [OF vis c v n]
  show ?thesis
  proof (cases "getVarByName lp nm")
    case None
    then show ?thesis using g by (simp add: varTerm_def)
  next
    case (Some i)
    have "i < length (lpCols lp)" using getVarByName_Some [OF Some] by simp
    then show ?thesis using g Some c by (simp add: varTerm_def nth_append)
  qed
qed

lemma late_not_sp: "lateCol c \<Longrightarrow> colName c \<noteq> getStatPosVar gg n nd"
  by (auto simp add: lateCol_def getStatPosVar_def)

lemma late_not_edg: "lateCol c \<Longrightarrow> colName c \<noteq> getEdgUseVar gg e edg"
  by (auto simp add: lateCol_def getEdgUseVar_def)

lemma asView_stable:
  assumes vis: "lpVisible lp = length (lpCols lp)" and c: "lpCols lp' = lpCols lp @ nc"
    and v: "lpVisible lp \<le> lpVisible lp'" and n: "\<forall>c\<in>set nc. lateCol c"
  shows "asView lp' gg cg = asView lp gg cg"
proof -
  have sp: "varTerm lp' (getStatPosVar gg a b) k = varTerm lp (getStatPosVar gg a b) k" for a b k
    by (rule varTerm_stable [OF vis c v]) (use n late_not_sp in blast)
  have ed: "varTerm lp' (getEdgUseVar gg a b) k = varTerm lp (getEdgUseVar gg a b) k" for a b k
    by (rule varTerm_stable [OF vis c v]) (use n late_not_edg in blast)
  show ?thesis
    unfolding asView_def asTerms_def sp ed by (rule refl)
qed

lemma late_dirCols: "c \<in> set (dirCols cg) \<Longrightarrow> lateCol c"
  by (auto simp add: dirCols_def lateCol_def dirCol_def dirName_def)

lemma late_orderCols: "c \<in> set (orderCols cg) \<Longrightarrow> lateCol c"
  by (auto simp add: orderCols_def lateCol_def vulnCol_def vulnName_def)

lemma late_bendCols: "c \<in> set (bendCols gg cg) \<Longrightarrow> lateCol c"
  by (auto simp add: bendCols_def bendColsOf_def lateCol_def negCol_def bucketCol_def)

lemma kind_spCols: "c \<in> set (spCols gg cg mgd) \<Longrightarrow> kind (colName c) = ''sp''"
  by (auto simp add: spCols_def spCol_def getStatPosVar_def kind_def)

lemma kind_dirCols: "c \<in> set (dirCols cg) \<Longrightarrow> kind (colName c) = ''d''"
  by (auto simp add: dirCols_def dirCol_def kind_dirName)

lemma kind_orderCols: "c \<in> set (orderCols cg) \<Longrightarrow> kind (colName c) = ''vuln''"
  by (auto simp add: orderCols_def vulnCol_def vulnName_def kind_def)

lemma kind_oneAssView: "r \<in> set (oneAssView gg cg mgd) \<Longrightarrow> kind (rowName (fst r)) = ''oneass''"
  by (auto simp add: oneAssView_def oneAssRow_def kind_def)

lemma kind_asView: "r \<in> set (asView lp gg cg) \<Longrightarrow> kind (rowName (fst r)) = ''as''"
  by (auto simp add: asView_def asRow_def kind_def split: if_splits)

lemma kind_orderView:
  "r \<in> set (orderView cg) \<Longrightarrow> kind (rowName (fst r)) = ''vc'' \<or> kind (rowName (fst r)) = ''oc''"
  by (auto simp add: orderView_def orderViewOf_def vcRow_def ocRow_def kind_def)

lemma name_bendView: "r \<in> set (bendView gg cg) \<Longrightarrow> bendRowName (rowName (fst r))"
  by (auto simp add: bendView_def bendViewOf_def bendRowName_def kind_def pairName_def)

lemma digit_not_paren: "n < 10 \<Longrightarrow> ''0123456789'' ! n \<noteq> CHR ''(''"
proof -
  assume "n < 10"
  then have "n \<in> {0, 1, 2, 3, 4, 5, 6, 7, 8, 9}" by auto
  then show ?thesis by auto
qed

lemma showDec_hd: "\<exists>c t. showDec n = c # t \<and> c \<noteq> CHR ''(''"
proof (induction n rule: showDec.induct)
  case (1 n)
  show ?case
  proof (cases "n < 10")
    case True
    then show ?thesis using digit_not_paren [OF True] by (subst showDec.simps) simp
  next
    case False
    then obtain c t where "showDec (n div 10) = c # t" "c \<noteq> CHR ''(''"
      using 1 by blast
    then show ?thesis using False by (subst showDec.simps) simp
  qed
qed

lemma name_bendCols: "c \<in> set (bendCols gg cg) \<Longrightarrow> bendColName (colName c)"
proof -
  have b: "bendColName (colName (bucketCol pens a b k))" for pens a b k
  proof -
    obtain c t where s: "showDec (bucketIdx pens k) = c # t" "c \<noteq> CHR ''(''"
      using showDec_hd by blast
    show ?thesis
      unfolding bendColName_def bucketCol_def using s by (simp add: kind_def)
  qed
  have n: "bendColName (colName (negCol a b))" for a b
    by (simp add: bendColName_def negCol_def kind_def pairName_def)
  assume "c \<in> set (bendCols gg cg)"
  then show ?thesis
    using b n by (auto simp add: bendCols_def bendColsOf_def)
qed

lemma createProblem_view:
  assumes wc: "wfComb cg"
  shows "\<exists>lp gg' Vue Vmid Cedg.
           createProblem gg cg geoPensMap maxGrDist solverStr = Inr (lp, gg') \<and>
           sameGrid gg gg' \<and> wfLP lp \<and> lpVisible lp = length (lpCols lp) \<and>
           rowView lp = oneAssView gg cg maxGrDist @ Vue @ asView lp gg' cg @ Vmid @
                        orderView cg @ bendView gg cg \<and>
           (\<forall>r\<in>set Vue. kind (rowName (fst r)) = ''ue'') \<and>
           (\<forall>r\<in>set Vmid. midRow (rowName (fst r))) \<and>
           lpCols lp = spCols gg cg maxGrDist @ Cedg @ dirCols cg @ orderCols cg @ bendCols gg cg \<and>
           (\<forall>c\<in>set Cedg. kind (colName c) = ''edg'')"
proof -
  define lp0 where "lp0 = getSolver solverStr"
  define st where "st = fold (oneAssStep cg maxGrDist) (cgNds cg) (lp0, gg, \<lambda>nd. {})"
  define lp1 where "lp1 = fst st"
  define gg1 where "gg1 = fst (snd st)"
  define cands where "cands = snd (snd st)"
  define lp2 where "lp2 = update (edgUseCols cg geoPensMap gg1 cands lp1)"
  define lp3 where "lp3 = ueRows gg1 cg lp2"
  define lp4 where "lp4 = update (asRows gg1 cg lp3)"
  define lp5 where "lp5 = ssRows gg1 cg cands lp4"
  define lp6 where "lp6 = update (iuRows gg1 cg lp5)"
  define lp7 where "lp7 = update (ncRows gg1 cg lp6)"
  define lp8 where "lp8 = update (dirVars gg1 cg lp7)"
  have wf0: "wfLP lp0" and r0: "rowView lp0 = []" and c0: "lpCols lp0 = []"
    by (simp_all add: lp0_def getSolver_def wfLP_def rowView_def)
  have b1: "builds lp0 (oneAssView gg cg maxGrDist) (spCols gg cg maxGrDist) lp1"
    and sg: "sameGrid gg gg1"
    using oneAss_fold [OF wf0 sameGrid_refl, of gg cg maxGrDist "cgNds cg" "\<lambda>nd. {}"]
    unfolding oneAssView_def spCols_def lp1_def gg1_def st_def by simp_all
  have wf1: "wfLP lp1" and r1: "rowView lp1 = oneAssView gg cg maxGrDist"
    and c1: "lpCols lp1 = spCols gg cg maxGrDist"
    using b1 r0 c0 by (simp_all add: builds_def)
  have p2: "phase (\<lambda>nm. False) (\<lambda>c. kind (colName c) = ''edg'') lp1 lp2"
    unfolding lp2_def by (intro phase_update ext_phase [OF wf1] ext_edgUseCols)
  have wf2: "wfLP lp2" using p2 by (simp add: phase_def)
  have r2: "rowView lp2 = rowView lp1" by (rule phase_cols_only [OF p2])
  obtain Cedg where c2: "lpCols lp2 = lpCols lp1 @ Cedg"
    and ke: "\<forall>c\<in>set Cedg. kind (colName c) = ''edg''"
    using p2 unfolding phase_def by blast
  have v2: "lpVisible lp2 = length (lpCols lp2)" by (simp add: lp2_def)
  have p3: "phase (\<lambda>nm. kind nm = ''ue'') (\<lambda>c. False) lp2 lp3"
    unfolding lp3_def by (intro ext_phase [OF wf2] ext_ueRows)
  have wf3: "wfLP lp3" using p3 by (simp add: phase_def)
  have c3: "lpCols lp3 = lpCols lp2" by (rule phase_rows_only [OF p3])
  obtain Vue where r3: "rowView lp3 = rowView lp2 @ Vue"
    and ku: "\<forall>r\<in>set Vue. kind (rowName (fst r)) = ''ue''"
    using p3 unfolding phase_def by blast
  have v3: "lpVisible lp3 = length (lpCols lp3)"
    using p3 wf3 v2 c3 unfolding phase_def wfLP_def by simp
  have a4: "appendsRows lp3 (asView lp3 gg1 cg) (asRows gg1 cg lp3)"
    by (rule asRows_view)
  have p4: "phase (\<lambda>nm. kind nm = ''as'') (\<lambda>c. False) lp3 lp4"
    unfolding lp4_def by (intro phase_update ext_phase [OF wf3] ext_asRows)
  have wf4: "wfLP lp4" using p4 by (simp add: phase_def)
  have r4: "rowView lp4 = rowView lp3 @ asView lp3 gg1 cg" and c4: "lpCols lp4 = lpCols lp3"
    using a4 by (simp_all add: lp4_def appendsRows_def)
  have p5: "phase (\<lambda>nm. kind nm = ''ss'') (\<lambda>c. False) lp4 lp5"
    unfolding lp5_def by (intro ext_phase [OF wf4] ext_ssRows)
  have wf5: "wfLP lp5" using p5 by (simp add: phase_def)
  have p6: "phase (\<lambda>nm. kind nm = ''iu'') (\<lambda>c. False) lp5 lp6"
    unfolding lp6_def by (intro phase_update ext_phase [OF wf5] ext_iuRows)
  have wf6: "wfLP lp6" using p6 by (simp add: phase_def)
  have p7: "phase crossName (\<lambda>c. False) lp6 lp7"
    unfolding lp7_def by (intro phase_update ext_phase [OF wf6] ext_ncRows)
  have wf7: "wfLP lp7" using p7 by (simp add: phase_def)
  have p8: "phase (\<lambda>nm. kind nm = ''dc'') isDirCol lp7 lp8"
    unfolding lp8_def by (intro phase_update ext_phase [OF wf7] ext_dirVars)
  have wf8: "wfLP lp8" using p8 by (simp add: phase_def)
  have c7: "lpCols lp7 = lpCols lp4"
    using phase_rows_only [OF p5] phase_rows_only [OF p6] phase_rows_only [OF p7] by simp
  have c8: "lpCols lp8 = lpCols lp4 @ dirCols cg"
    unfolding lp8_def by (simp add: dirVars_cols c7)
  have v8: "lpVisible lp8 = length (lpCols lp8)" by (simp add: lp8_def)
  obtain V5 where r5: "rowView lp5 = rowView lp4 @ V5" "\<forall>r\<in>set V5. midRow (rowName (fst r))"
    using p5 unfolding phase_def midRow_def by blast
  obtain V6 where r6: "rowView lp6 = rowView lp5 @ V6" "\<forall>r\<in>set V6. midRow (rowName (fst r))"
    using p6 unfolding phase_def midRow_def by blast
  obtain V7 where r7: "rowView lp7 = rowView lp6 @ V7" "\<forall>r\<in>set V7. midRow (rowName (fst r))"
    using p7 unfolding phase_def midRow_def by blast
  obtain V8 where r8: "rowView lp8 = rowView lp7 @ V8" "\<forall>r\<in>set V8. midRow (rowName (fst r))"
    using p8 unfolding phase_def midRow_def by blast
  define Vmid where "Vmid = V5 @ V6 @ V7 @ V8"
  have km: "\<forall>r\<in>set Vmid. midRow (rowName (fst r))"
    using r5(2) r6(2) r7(2) r8(2) by (auto simp add: Vmid_def)
  have r8': "rowView lp8 = oneAssView gg cg maxGrDist @ Vue @ asView lp3 gg1 cg @ Vmid"
    by (simp add: r8 r7 r6 r5 r4 r3 r2 r1 Vmid_def)
  have c8': "lpCols lp8 = spCols gg cg maxGrDist @ Cedg @ dirCols cg"
    by (simp add: c8 c4 c3 c2 c1)
  have nod: "\<forall>c\<in>set (spCols gg cg maxGrDist @ Cedg). kind (colName c) \<noteq> ''d''"
    using ke kind_spCols [of _ gg cg maxGrDist] by auto
  have d8: "dirsFound cg lp8"
    by (rule dirsFound_init [OF wf8 v8 _ nod]) (simp add: c8')
  have vi8: "vulnInv lp8"
    unfolding vulnInv_def c8' using ke kind_spCols [of _ gg cg maxGrDist] kind_dirCols [of _ cg]
    by auto
  obtain lp9 where o: "orderRows cg lp8 = Inr lp9" "dirsFound cg lp9"
    "rowView lp9 = rowView lp8 @ orderView cg" "lpCols lp9 = lpCols lp8 @ orderCols cg"
    using orderRows_ok [OF d8 vi8 wc] by blast
  have wf9: "wfLP lp9" using o(2) by (simp add: dirsFound_def)
  have d9: "dirsFound cg (update lp9)"
    using dirsFound_mono [OF o(2) wfLP_update [OF wf9], of "[]"] wf9 by (simp add: wfLP_def)
  obtain lp10 where b: "bendVars gg1 cg (update lp9) = Inr lp10"
    "builds (update lp9) (bendView gg1 cg) (bendCols gg1 cg) lp10"
    using bendVars_ok [OF d9 wc] by blast
  have bg: "bendView gg1 cg = bendView gg cg" "bendCols gg1 cg = bendCols gg cg"
    by (simp_all add: bendView_def bendCols_def sameGrid_fields [OF sg])
  have wf10: "wfLP (update lp10)" using b(2) by (simp add: builds_def wfLP_update)
  have r10: "rowView (update lp10) =
      oneAssView gg cg maxGrDist @ Vue @ asView lp3 gg1 cg @ Vmid @ orderView cg @ bendView gg cg"
    using b(2) by (simp add: builds_def o(3) r8' bg)
  have c10: "lpCols (update lp10) =
      spCols gg cg maxGrDist @ Cedg @ dirCols cg @ orderCols cg @ bendCols gg cg"
    using b(2) by (simp add: builds_def o(4) c8' bg)
  have c10': "lpCols (update lp10) = lpCols lp3 @ (dirCols cg @ orderCols cg @ bendCols gg cg)"
    unfolding c10 c3 c2 c1 by simp
  have late: "\<forall>c\<in>set (dirCols cg @ orderCols cg @ bendCols gg cg). lateCol c"
    using late_dirCols late_orderCols late_bendCols by auto
  have vle: "lpVisible lp3 \<le> lpVisible (update lp10)"
    using arg_cong [OF c10', of length] unfolding v3 by simp
  have av: "asView (update lp10) gg1 cg = asView lp3 gg1 cg"
    by (rule asView_stable [OF v3 c10' vle late])
  have res: "createProblem gg cg geoPensMap maxGrDist solverStr = Inr (update lp10, gg1)"
    using o(1) b(1)
    unfolding createProblem_def Let_def split_def lp8_def lp7_def lp6_def lp5_def lp4_def lp3_def
      lp2_def lp1_def gg1_def cands_def st_def lp0_def
    by simp
  have v10: "lpVisible (update lp10) = length (lpCols (update lp10))" by simp
  note r10' = r10 [folded av]
  show ?thesis
    using res sg wf10 v10 r10' ku km c10 ke by blast
qed

lemma midRow_kinds:
  "midRow nm \<Longrightarrow> kind nm = ''ss'' \<or> kind nm = ''iu'' \<or> kind nm = ''dc'' \<or>
     (kind nm = ''nc'' \<and> last nm = CHR '')'')"
  unfolding midRow_def crossName_def by blast

lemma bendRow_kinds:
  "bendRowName nm \<Longrightarrow> kind nm = ''ac'' \<or> kind nm = ''asc'' \<or> kind nm = ''nc''"
  unfolding bendRowName_def by blast





text \<open>
  C2. On a well-formed comb graph \<^verbatim>\<open>createProblem\<close> returns a problem whose rows named
  \<^verbatim>\<open>vc\<close> and \<^verbatim>\<open>oc\<close> are exactly, for every comb node \<open>v\<close> of degree at least 3 in turn:
  one equality row with right-hand side 1 over the variables \<^verbatim>\<open>vuln(v, i)\<close>,
  \<open>i < deg v\<close>, each with coefficient 1; and for every slot \<open>i\<close> of the circular
  ordering of \<open>v\<close>, with \<open>b\<close> the edge at slot \<open>i\<close> and \<open>a\<close> the edge before it (the last
  edge for \<open>i = 0\<close>), one lower-bound row with right-hand side 1 and the terms
  \<open>d(v, b) - d(v, a) + 8 * vuln(v, i)\<close>. The variables \<^verbatim>\<open>vuln\<close> of the problem are
  exactly these, all binary; a node of degree below 3 gets none of these rows and
  variables.
\<close>

theorem createProblem_circular_ordering:
  assumes "wfComb cg"
  shows "\<exists>lp gg'. createProblem gg cg geoPensMap maxGrDist solverStr = Inr (lp, gg') \<and>
           filter (\<lambda>r. kind (rowName (fst r)) = ''vc'' \<or> kind (rowName (fst r)) = ''oc'')
             (rowView lp) = orderView cg \<and>
           filter (\<lambda>c. kind (colName c) = ''vuln'') (lpCols lp) = orderCols cg"
proof -
  obtain lp gg' Vue Vmid Cedg where v:
    "createProblem gg cg geoPensMap maxGrDist solverStr = Inr (lp, gg')"
    "rowView lp = oneAssView gg cg maxGrDist @ Vue @ asView lp gg' cg @ Vmid @
                  orderView cg @ bendView gg cg"
    "\<forall>r\<in>set Vue. kind (rowName (fst r)) = ''ue''"
    "\<forall>r\<in>set Vmid. midRow (rowName (fst r))"
    "lpCols lp = spCols gg cg maxGrDist @ Cedg @ dirCols cg @ orderCols cg @ bendCols gg cg"
    "\<forall>c\<in>set Cedg. kind (colName c) = ''edg''"
    using createProblem_view [OF assms, of gg geoPensMap maxGrDist solverStr] by blast
  let ?P = "\<lambda>r. kind (rowName (fst r)) = ''vc'' \<or> kind (rowName (fst r)) = ''oc''"
  let ?Q = "\<lambda>c. kind (colName c) = ''vuln''"
  have 1: "filter ?P (oneAssView gg cg maxGrDist) = []"
    by (rule filter_False) (auto dest: kind_oneAssView)
  have 2: "filter ?P Vue = []"
    by (rule filter_False) (use v(3) in auto)
  have 3: "filter ?P (asView lp gg' cg) = []"
    by (rule filter_False) (auto dest: kind_asView)
  have 4: "filter ?P Vmid = []"
    by (rule filter_False) (use v(4) in \<open>auto dest!: bspec midRow_kinds\<close>)
  have 5: "filter ?P (orderView cg) = orderView cg"
    by (rule filter_True) (auto dest: kind_orderView)
  have 6: "filter ?P (bendView gg cg) = []"
    by (rule filter_False) (auto dest!: name_bendView bendRow_kinds)
  have a: "filter ?Q (spCols gg cg maxGrDist) = []"
    by (rule filter_False) (auto dest: kind_spCols)
  have b: "filter ?Q Cedg = []"
    by (rule filter_False) (use v(6) in auto)
  have c: "filter ?Q (dirCols cg) = []"
    by (rule filter_False) (auto dest: kind_dirCols)
  have d: "filter ?Q (orderCols cg) = orderCols cg"
    by (rule filter_True) (auto dest: kind_orderCols)
  have e: "filter ?Q (bendCols gg cg) = []"
    by (rule filter_False) (auto dest!: name_bendCols simp add: bendColName_def)
  have R: "filter ?P (rowView lp) = orderView cg"
    by (subst v(2)) (simp add: 1 2 3 4 5 6)
  have C: "filter ?Q (lpCols lp) = orderCols cg"
    by (subst v(5)) (simp add: a b c d e)
  show ?thesis
    using v(1) R C by blast
qed

theorem createProblem_circular_ordering_witness:
  "wfComb exComb \<and>
   (\<exists>lp gg'. createProblem exGrid exComb None 3 ''glpk'' = Inr (lp, gg') \<and>
      filter (\<lambda>r. kind (rowName (fst r)) = ''vc'' \<or> kind (rowName (fst r)) = ''oc'')
        (rowView lp) = orderView exComb \<and>
      filter (\<lambda>c. kind (colName c) = ''vuln'') (lpCols lp) = orderCols exComb)"
  using createProblem_circular_ordering [of exComb exGrid None 3 "''glpk''"]
  by (simp add: wfComb_def exComb_def combDeg_def)





text \<open>The pairs of the example that share a line.\<close>

lemma bendPairs_example: "bendPairs exComb 4096 = [(8192, 8224), (8224, 8256)]"
  by (simp add: bendPairs_def exComb_def idxPairs_def sharedLines_def upt_rec)




























end
